theory Spec2Isabelle
  imports Complex_Main "HOL-Library.Word" "HOL-Library.Monad_Syntax" "HOL-Library.Multiset"
    "HOL-Library.Log_Nat"
begin

unbundle bit_operations_syntax

section \<open>JavaScript values used by static/js/app.js\<close>

subsection \<open>Strings\<close>

text \<open>
  A JavaScript string is a sequence of UTF-16 code units. Literals of the source that are
  ASCII are written with \<open>js\<close>; the two accented letters of the source are the single code
  units U+00E9 and U+00E0.
\<close>

type_synonym code_unit = "16 word"
type_synonym jsstring = "code_unit list"

definition js :: "string \<Rightarrow> jsstring" where
  "js s = map of_char s"

definition non_renseigne :: jsstring where
  "non_renseigne = js ''Non renseign'' @ [0xE9]"

text \<open>White space and line terminators of ECMAScript: what \<open>String.prototype.trim\<close>,
  \<open>parseFloat\<close> and the regular expression class \<open>\s\<close> skip.\<close>

definition is_space :: "code_unit \<Rightarrow> bool" where
  "is_space c \<longleftrightarrow>
     c = 0x09 \<or> c = 0x0A \<or> c = 0x0B \<or> c = 0x0C \<or> c = 0x0D \<or> c = 0x20 \<or> c = 0xA0 \<or>
     c = 0x1680 \<or> (0x2000 \<le> c \<and> c \<le> 0x200A) \<or> c = 0x2028 \<or> c = 0x2029 \<or>
     c = 0x202F \<or> c = 0x205F \<or> c = 0x3000 \<or> c = 0xFEFF"

definition is_digit :: "code_unit \<Rightarrow> bool" where
  "is_digit c \<longleftrightarrow> 0x30 \<le> c \<and> c \<le> 0x39"

definition digit_val :: "code_unit \<Rightarrow> nat" where
  "digit_val c = unat c - 48"

definition digits_val :: "jsstring \<Rightarrow> nat" where
  "digits_val ds = foldl (\<lambda>n c. 10 * n + digit_val c) 0 ds"

definition trim :: "jsstring \<Rightarrow> jsstring" where
  "trim s = rev (dropWhile is_space (rev (dropWhile is_space s)))"

subsection \<open>Numbers\<close>

text \<open>
  A Number is a finite double, one of the two infinities, or NaN. A finite double is
  written as the rational it denotes, and the two zeros are one value (the source never
  tells them apart: both are falsy and both are \<open>=== 0\<close>). Every arithmetic operation
  computes the exact result and rounds it to the nearest double, a tie going to the even
  significand; a result of magnitude \<open>2^1024\<close> or more after rounding is an infinity, and
  one of at most half the least subnormal is zero.
\<close>

datatype jsnum = Fin rat | PInf | NInf | NaN

text \<open>The exponent \<open>e\<close> of a positive number: \<open>2^e \<le> a < 2^(e+1)\<close>.\<close>

definition floor_log2 :: "rat \<Rightarrow> int" where
  "floor_log2 a = (if 1 \<le> a then bitlen \<lfloor>a\<rfloor> - 1 else - bitlen (\<lceil>1 / a\<rceil> - 1))"

definition round_half_even :: "rat \<Rightarrow> int" where
  "round_half_even x =
     (let f = \<lfloor>x\<rfloor>; d = x - of_int f
      in if d < 1 / 2 then f else if 1 / 2 < d then f + 1 else if even f then f else f + 1)"

text \<open>Rounding to binary64: 53 significant bits, the least exponent -1022.\<close>

definition round_double :: "rat \<Rightarrow> jsnum" where
  "round_double r =
     (if r = 0 then Fin 0
      else
        (let a = \<bar>r\<bar>;
             e = max (floor_log2 a) (- 1022);
             q = 2 powi (e - 52);
             v = of_int (round_half_even (a / q)) * q
         in if 2 powi 1024 \<le> v then (if 0 < r then PInf else NInf)
            else Fin (if 0 < r then v else - v)))"

fun js_neg :: "jsnum \<Rightarrow> jsnum" where
  "js_neg (Fin a) = Fin (- a)"
| "js_neg PInf = NInf"
| "js_neg NInf = PInf"
| "js_neg NaN = NaN"

fun js_add :: "jsnum \<Rightarrow> jsnum \<Rightarrow> jsnum" where
  "js_add NaN _ = NaN"
| "js_add _ NaN = NaN"
| "js_add (Fin a) (Fin b) = round_double (a + b)"
| "js_add PInf NInf = NaN"
| "js_add NInf PInf = NaN"
| "js_add PInf _ = PInf"
| "js_add _ PInf = PInf"
| "js_add NInf _ = NInf"
| "js_add _ NInf = NInf"

definition js_sub :: "jsnum \<Rightarrow> jsnum \<Rightarrow> jsnum" where
  "js_sub a b = js_add a (js_neg b)"

text \<open>Division; every divisor of the source is a positive constant or an array length,
  so a zero divisor is the positive zero.\<close>

fun js_div :: "jsnum \<Rightarrow> jsnum \<Rightarrow> jsnum" where
  "js_div NaN _ = NaN"
| "js_div _ NaN = NaN"
| "js_div (Fin a) (Fin b) =
     (if b = 0 then (if a = 0 then NaN else if 0 < a then PInf else NInf)
      else round_double (a / b))"
| "js_div (Fin a) _ = Fin 0"
| "js_div PInf (Fin b) = (if b < 0 then NInf else PInf)"
| "js_div NInf (Fin b) = (if b < 0 then PInf else NInf)"
| "js_div _ _ = NaN"

fun js_less :: "jsnum \<Rightarrow> jsnum \<Rightarrow> bool" where
  "js_less NaN _ = False"
| "js_less _ NaN = False"
| "js_less (Fin a) (Fin b) = (a < b)"
| "js_less _ NInf = False"
| "js_less NInf _ = True"
| "js_less PInf _ = False"
| "js_less _ PInf = True"

fun js_le :: "jsnum \<Rightarrow> jsnum \<Rightarrow> bool" where
  "js_le NaN _ = False"
| "js_le _ NaN = False"
| "js_le (Fin a) (Fin b) = (a \<le> b)"
| "js_le NInf _ = True"
| "js_le _ PInf = True"
| "js_le _ _ = False"

definition isNaN :: "jsnum \<Rightarrow> bool" where
  "isNaN x \<longleftrightarrow> x = NaN"

subsection \<open>Values of a JSON record field\<close>

text \<open>A field of a record received from the search endpoint: absent (\<open>undefined\<close>),
  \<open>null\<close>, a boolean, a number or a string.\<close>

datatype jsval = JUndefined | JNull | JBool bool | JNum jsnum | JStr jsstring

fun truthy :: "jsval \<Rightarrow> bool" where
  "truthy JUndefined = False"
| "truthy JNull = False"
| "truthy (JBool b) = b"
| "truthy (JNum (Fin r)) = (r \<noteq> 0)"
| "truthy (JNum NaN) = False"
| "truthy (JNum _) = True"
| "truthy (JStr s) = (s \<noteq> [])"

text \<open>\<open>a || b\<close> on values, and on an optional string with a string default.\<close>

definition js_or :: "jsval \<Rightarrow> jsval \<Rightarrow> jsval" where
  "js_or a b = (if truthy a then a else b)"

definition str_or :: "jsstring option \<Rightarrow> jsstring \<Rightarrow> jsstring" where
  "str_or a b = (case a of None \<Rightarrow> b | Some s \<Rightarrow> if s = [] then b else s)"

subsection \<open>parseFloat\<close>

definition pow10 :: "int \<Rightarrow> rat" where
  "pow10 e = (if 0 \<le> e then 10 ^ nat e else 1 / 10 ^ nat (- e))"

text \<open>The value of an ExponentPart at the head of the string, 0 when there is none
  (an \<open>e\<close> that no digit follows is not part of the literal).\<close>

definition parse_exponent :: "jsstring \<Rightarrow> int" where
  "parse_exponent s =
     (case s of
        [] \<Rightarrow> 0
      | e # r \<Rightarrow>
          if e = 0x65 \<or> e = 0x45 then
            (case r of
               [] \<Rightarrow> 0
             | sg # r' \<Rightarrow>
                 if (sg = 0x2B \<or> sg = 0x2D) \<and> takeWhile is_digit r' \<noteq> [] then
                   (if sg = 0x2D then - int (digits_val (takeWhile is_digit r'))
                    else int (digits_val (takeWhile is_digit r')))
                 else int (digits_val (takeWhile is_digit r)))
          else 0)"

text \<open>The longest prefix that is a StrUnsignedDecimalLiteral, and its value rounded to
  a double; NaN when no prefix is one.\<close>

definition parse_unsigned :: "jsstring \<Rightarrow> jsnum" where
  "parse_unsigned s =
     (if take 8 s = js ''Infinity'' then PInf
      else
        let ip = takeWhile is_digit s; r = dropWhile is_digit s in
        (case r of
           [] \<Rightarrow> if ip = [] then NaN else round_double (of_nat (digits_val ip))
         | d # r1 \<Rightarrow>
             if d = 0x2E then
               (let fp = takeWhile is_digit r1; r2 = dropWhile is_digit r1 in
                if ip = [] \<and> fp = [] then NaN
                else round_double ((of_nat (digits_val ip) + of_nat (digits_val fp) / 10 ^ length fp)
                                   * pow10 (parse_exponent r2)))
             else if ip = [] then NaN
             else round_double (of_nat (digits_val ip) * pow10 (parse_exponent r))))"

definition parseFloat_str :: "jsstring \<Rightarrow> jsnum" where
  "parseFloat_str s =
     (case dropWhile is_space s of
        [] \<Rightarrow> NaN
      | c # r \<Rightarrow>
          if c = 0x2B then parse_unsigned r
          else if c = 0x2D then js_neg (parse_unsigned r)
          else parse_unsigned (c # r))"

text \<open>
  \<open>parseFloat(v)\<close> parses \<open>ToString(v)\<close>. The string of a number parses back to the number;
  \<open>"undefined"\<close>, \<open>"null"\<close>, \<open>"true"\<close> and \<open>"false"\<close> have no numeric prefix.
\<close>

fun parseFloat :: "jsval \<Rightarrow> jsnum" where
  "parseFloat (JNum x) = x"
| "parseFloat (JStr s) = parseFloat_str s"
| "parseFloat _ = NaN"

subsection \<open>Array.prototype.sort with a comparator\<close>

text \<open>
  The sort is stable, and a comparator result that is NaN counts as 0. For a consistent
  comparator the result is the one stable sorted permutation, which this insertion sort
  computes: an element is placed before the first later element it is not greater than.
\<close>

fun sort_insert :: "('a \<Rightarrow> 'a \<Rightarrow> jsnum) \<Rightarrow> 'a \<Rightarrow> 'a list \<Rightarrow> 'a list" where
  "sort_insert cmp x [] = [x]"
| "sort_insert cmp x (y # ys) =
     (if js_less (Fin 0) (cmp x y) then y # sort_insert cmp x ys else x # y # ys)"

definition array_sort :: "('a \<Rightarrow> 'a \<Rightarrow> jsnum) \<Rightarrow> 'a list \<Rightarrow> 'a list" where
  "array_sort cmp xs = foldr (sort_insert cmp) xs []"

subsection \<open>The Date constructor in local time\<close>

definition InLeapYear :: "int \<Rightarrow> bool" where
  "InLeapYear y \<longleftrightarrow> y mod 4 = 0 \<and> (y mod 100 \<noteq> 0 \<or> y mod 400 = 0)"

definition DayFromYear :: "int \<Rightarrow> int" where
  "DayFromYear y =
     365 * (y - 1970) + (y - 1969) div 4 - (y - 1901) div 100 + (y - 1601) div 400"

definition month_start :: "int \<Rightarrow> int" where
  "month_start m = [0, 31, 59, 90, 120, 151, 181, 212, 243, 273, 304, 334] ! nat m"

text \<open>\<open>MakeDay(year, month, date)\<close>: months outside 0..11 carry into the year, days
  outside the month carry into the next months.\<close>

definition MakeDay :: "int \<Rightarrow> int \<Rightarrow> int \<Rightarrow> int" where
  "MakeDay year month date =
     (let ym = year + month div 12; mn = month mod 12 in
      DayFromYear ym + month_start mn + (if InLeapYear ym \<and> 2 \<le> mn then 1 else 0)
        + date - 1)"

definition MakeTime :: "int \<Rightarrow> int \<Rightarrow> int" where
  "MakeTime hour minute = hour * 3600000 + minute * 60000"

definition MakeDate :: "int \<Rightarrow> int \<Rightarrow> int" where
  "MakeDate day time = day * 86400000 + time"

definition TimeClip :: "int \<Rightarrow> jsnum" where
  "TimeClip t = (if 8640000000000000 < \<bar>t\<bar> then NaN else Fin (of_int t))"

text \<open>
  What the browser supplies: the offset of local time from UTC at a local time (in ms),
  the locale's string comparison, and the decimal string of a number.
\<close>

record host =
  localTZA :: "int \<Rightarrow> int"
  localeCompare :: "jsstring \<Rightarrow> jsstring \<Rightarrow> int"
  numberToString :: "jsnum \<Rightarrow> jsstring"

text \<open>The time value of \<open>new Date(year, month, day, hour, minute)\<close>; a year from 0 to 99
  means 1900 + year.\<close>

definition new_Date :: "host \<Rightarrow> int \<Rightarrow> int \<Rightarrow> int \<Rightarrow> int \<Rightarrow> int \<Rightarrow> jsnum" where
  "new_Date h year month day hour minute =
     (let yr = (if 0 \<le> year \<and> year \<le> 99 then 1900 + year else year);
          t = MakeDate (MakeDay yr month day) (MakeTime hour minute)
      in TimeClip (t - localTZA h t))"

section \<open>Data model\<close>

text \<open>A PriceEntry and a Station as the search endpoint sends them. A string field that
  is absent or \<open>null\<close> is \<open>None\<close>; the price value, the timestamp and the coordinates are
  read through coercions by the source and stay untyped values.\<close>

record price_entry =
  nom :: jsstring
  valeur :: jsval
  maj :: jsval

record station =
  marque :: "jsstring option"
  adresse :: "jsstring option"
  cp :: "jsstring option"
  ville :: "jsstring option"
  type :: "jsstring option"
  automate_24h :: bool
  horaires :: "jsstring option"
  latitude :: jsval
  longitude :: jsval
  prix :: "price_entry list"

datatype js_error = TypeError | URIError | SyntaxError | Error jsstring

section \<open>DateFreshness: parseDisplayDate and getDataAge\<close>

definition take_digits :: "nat \<Rightarrow> jsstring \<Rightarrow> (nat \<times> jsstring) option" where
  "take_digits n s =
     (if n \<le> length s \<and> list_all is_digit (take n s)
      then Some (digits_val (take n s), drop n s) else None)"

definition take_lit :: "jsstring \<Rightarrow> jsstring \<Rightarrow> jsstring option" where
  "take_lit l s = (if take (length l) s = l then Some (drop (length l) s) else None)"

text \<open>The regular expression of the source (two digits, a slash, two digits, a slash, four digits, a space, the letter U+00E0, a space, two digits, a colon, two digits) at the head of
  the string; the groups in the order day, month, year, hour, minute.\<close>

definition date_match_here :: "jsstring \<Rightarrow> (nat \<times> nat \<times> nat \<times> nat \<times> nat) option" where
  "date_match_here s = do {
     (day, s1) \<leftarrow> take_digits 2 s;
     s2 \<leftarrow> take_lit (js ''/'') s1;
     (month, s3) \<leftarrow> take_digits 2 s2;
     s4 \<leftarrow> take_lit (js ''/'') s3;
     (year, s5) \<leftarrow> take_digits 4 s4;
     s6 \<leftarrow> take_lit [0x20, 0xE0, 0x20] s5;
     (hour, s7) \<leftarrow> take_digits 2 s6;
     s8 \<leftarrow> take_lit (js '':'') s7;
     (minute, s9) \<leftarrow> take_digits 2 s8;
     Some (day, month, year, hour, minute)
   }"

text \<open>The expression is not anchored: \<open>match\<close> returns the leftmost occurrence.\<close>

fun date_match :: "jsstring \<Rightarrow> (nat \<times> nat \<times> nat \<times> nat \<times> nat) option" where
  "date_match [] = None"
| "date_match (c # cs) =
     (case date_match_here (c # cs) of Some m \<Rightarrow> Some m | None \<Rightarrow> date_match cs)"

text \<open>\<open>dateStr.match(...)\<close>: a value that is not a string has no \<open>match\<close> method, and the
  call raises a TypeError.\<close>

definition String_match :: "jsval \<Rightarrow> js_error + (nat \<times> nat \<times> nat \<times> nat \<times> nat) option" where
  "String_match v = (case v of JStr s \<Rightarrow> Inr (date_match s) | _ \<Rightarrow> Inl TypeError)"

definition parseDisplayDate :: "host \<Rightarrow> jsval \<Rightarrow> jsnum" where
  "parseDisplayDate h dateStr =
     (if \<not> truthy dateStr \<or> dateStr = JStr non_renseigne then Fin 0
      else
        (case String_match dateStr of
           Inl e \<Rightarrow> Fin 0
         | Inr None \<Rightarrow> Fin 0
         | Inr (Some (day, month, year, hour, minute)) \<Rightarrow>
             new_Date h (int year) (int month - 1) (int day) (int hour) (int minute)))"

datatype age = Fresh | Old | Stale

text \<open>\<open>now\<close> is the time value of \<open>new Date()\<close> at the call.\<close>

definition getDataAge :: "host \<Rightarrow> int \<Rightarrow> jsval \<Rightarrow> age" where
  "getDataAge h now dateString =
     (if \<not> truthy dateString \<or> dateString = JStr non_renseigne then Stale
      else
        (case String_match dateString of
           Inl e \<Rightarrow> Stale
         | Inr None \<Rightarrow> Stale
         | Inr (Some (day, month, year, hour, minute)) \<Rightarrow>
             (let updateDate = new_Date h (int year) (int month - 1) (int day) (int hour) (int minute);
                  diffDays = js_div (js_sub (Fin (of_int now)) updateDate) (Fin (1000 * 60 * 60 * 24))
              in if js_le diffDays (Fin 7) then Fresh
                 else if js_le diffDays (Fin 30) then Old
                 else Stale)))"

section \<open>PriceAggregator: getLatestUpdateTimestamp and getPrixMoyen\<close>

definition getLatestUpdateTimestamp :: "host \<Rightarrow> station \<Rightarrow> jsnum" where
  "getLatestUpdateTimestamp h s =
     (if prix s = [] then Fin 0
      else foldl (\<lambda>latestTimestamp p.
                    let timestamp = parseDisplayDate h (maj p)
                    in if js_less latestTimestamp timestamp then timestamp else latestTimestamp)
                 (Fin 0) (prix s))"

definition getPrixMoyen :: "station \<Rightarrow> jsnum" where
  "getPrixMoyen s =
     (if prix s = [] then PInf
      else
        (let total = foldl (\<lambda>sum p. js_add sum (parseFloat (js_or (valeur p) (JNum (Fin 0)))))
                           (Fin 0) (prix s)
         in js_div total (Fin (of_nat (length (prix s))))))"

section \<open>SortEngine: trierStations\<close>

text \<open>The source sorts the array in place; the model returns the sorted array. A key that
  no \<open>case\<close> of the \<open>switch\<close> names leaves the array as it is.\<close>

definition trierStations :: "host \<Rightarrow> station list \<Rightarrow> jsstring \<Rightarrow> station list" where
  "trierStations h stations tri =
     (if tri = js ''date-maj'' \<or> tri = [] then
        array_sort (\<lambda>a b. js_sub (getLatestUpdateTimestamp h b) (getLatestUpdateTimestamp h a)) stations
      else if tri = js ''prix-croissant'' then
        array_sort (\<lambda>a b. js_sub (getPrixMoyen a) (getPrixMoyen b)) stations
      else if tri = js ''prix-decroissant'' then
        array_sort (\<lambda>a b. js_sub (getPrixMoyen b) (getPrixMoyen a)) stations
      else if tri = js ''ville-az'' then
        array_sort (\<lambda>a b. Fin (of_int (localeCompare h (str_or (ville a) []) (str_or (ville b) [])))) stations
      else if tri = js ''marque-az'' then
        array_sort (\<lambda>a b. Fin (of_int (localeCompare h (str_or (marque a) []) (str_or (marque b) [])))) stations
      else stations)"

section \<open>FilterEngine: the three filters of appliquerFiltres\<close>

definition filtrer_type :: "jsstring \<Rightarrow> station list \<Rightarrow> station list" where
  "filtrer_type typeStation stations =
     (if typeStation \<noteq> [] then
        (if typeStation = js ''autoroute'' then filter (\<lambda>s. type s = Some (js ''Autoroute'')) stations
         else if typeStation = js ''route'' then filter (\<lambda>s. type s = Some (js ''Route'')) stations
         else stations)
      else stations)"

definition filtrer_horaires :: "jsstring \<Rightarrow> station list \<Rightarrow> station list" where
  "filtrer_horaires horaires_sel stations =
     (if horaires_sel = js ''24h'' then filter (\<lambda>s. automate_24h s) stations
      else if horaires_sel = js ''ouvert'' then
        filter (\<lambda>s. horaires s \<noteq> Some (js ''Horaires non disponibles'') \<or> automate_24h s) stations
      else stations)"

definition filtrer_carburants :: "jsstring list \<Rightarrow> station list \<Rightarrow> station list" where
  "filtrer_carburants selectedFuels stations =
     (if selectedFuels \<noteq> [] then
        filter (\<lambda>station. list_ex (\<lambda>fuel. list_ex (\<lambda>p. nom p = fuel) (prix station)) selectedFuels)
               stations
      else stations)"

section \<open>MapLinkResolver: generateGoogleMapsUrl\<close>

text \<open>\<open>replace(/,\s*,/g, ',')\<close>: every occurrence of a comma, white space and a comma,
  found from left to right, becomes one comma; the search goes on after the occurrence.\<close>

function collapse_commas :: "jsstring \<Rightarrow> jsstring" where
  "collapse_commas [] = []"
| "collapse_commas (c # cs) =
     (if c = 0x2C then
        (case dropWhile is_space cs of
           [] \<Rightarrow> c # collapse_commas cs
         | d # ds \<Rightarrow> if d = 0x2C then 0x2C # collapse_commas ds else c # collapse_commas cs)
      else c # collapse_commas cs)"
  by pat_completeness auto
termination
proof (relation "measure length")
  fix c :: code_unit and cs d ds
  assume "dropWhile is_space cs = d # ds"
  then have "length (d # ds) \<le> length cs"
    using length_dropWhile_le [of is_space cs] by simp
  then show "(ds, c # cs) \<in> measure length" by simp
qed simp_all

subsection \<open>encodeURIComponent\<close>

definition is_unreserved :: "code_unit \<Rightarrow> bool" where
  "is_unreserved c \<longleftrightarrow>
     (0x41 \<le> c \<and> c \<le> 0x5A) \<or> (0x61 \<le> c \<and> c \<le> 0x7A) \<or> (0x30 \<le> c \<and> c \<le> 0x39) \<or>
     c = 0x2D \<or> c = 0x5F \<or> c = 0x2E \<or> c = 0x21 \<or> c = 0x7E \<or> c = 0x2A \<or> c = 0x27 \<or>
     c = 0x28 \<or> c = 0x29"

definition is_lead :: "code_unit \<Rightarrow> bool" where
  "is_lead c \<longleftrightarrow> 0xD800 \<le> c \<and> c \<le> 0xDBFF"

definition is_trail :: "code_unit \<Rightarrow> bool" where
  "is_trail c \<longleftrightarrow> 0xDC00 \<le> c \<and> c \<le> 0xDFFF"

definition pair_code_point :: "code_unit \<Rightarrow> code_unit \<Rightarrow> nat" where
  "pair_code_point lead trail = (unat lead - 0xD800) * 0x400 + (unat trail - 0xDC00) + 0x10000"

definition utf8 :: "nat \<Rightarrow> nat list" where
  "utf8 n =
     (if n < 0x80 then [n]
      else if n < 0x800 then [0xC0 + n div 0x40, 0x80 + n mod 0x40]
      else if n < 0x10000 then
        [0xE0 + n div 0x1000, 0x80 + n div 0x40 mod 0x40, 0x80 + n mod 0x40]
      else
        [0xF0 + n div 0x40000, 0x80 + n div 0x1000 mod 0x40, 0x80 + n div 0x40 mod 0x40,
         0x80 + n mod 0x40])"

definition hex_digit :: "nat \<Rightarrow> code_unit" where
  "hex_digit n = (if n < 10 then of_nat (0x30 + n) else of_nat (0x41 + (n - 10)))"

definition percent :: "nat \<Rightarrow> jsstring" where
  "percent b = [0x25, hex_digit (b div 16), hex_digit (b mod 16)]"

definition percent_encode :: "nat \<Rightarrow> jsstring" where
  "percent_encode n = concat (map percent (utf8 n))"

text \<open>A surrogate that is not half of a pair raises a URIError.\<close>

fun encodeURIComponent :: "jsstring \<Rightarrow> js_error + jsstring" where
  "encodeURIComponent [] = Inr []"
| "encodeURIComponent (c # cs) =
     (if is_unreserved c then
        (case encodeURIComponent cs of Inl e \<Rightarrow> Inl e | Inr r \<Rightarrow> Inr (c # r))
      else if is_trail c then Inl URIError
      else if is_lead c then
        (case cs of
           [] \<Rightarrow> Inl URIError
         | d # ds \<Rightarrow>
             if is_trail d then
               (case encodeURIComponent ds of
                  Inl e \<Rightarrow> Inl e
                | Inr r \<Rightarrow> Inr (percent_encode (pair_code_point c d) @ r))
             else Inl URIError)
      else
        (case encodeURIComponent cs of
           Inl e \<Rightarrow> Inl e
         | Inr r \<Rightarrow> Inr (percent_encode (unat c) @ r)))"

text \<open>The \<open>try\<close> of the source encloses only \<open>parseFloat\<close> and the division, which raise
  nothing on the values of a record field; \<open>encodeURIComponent\<close> is called outside it.\<close>

definition generateGoogleMapsUrl :: "host \<Rightarrow> station \<Rightarrow> js_error + jsstring" where
  "generateGoogleMapsUrl h station =
     (let marque = str_or (marque station) (js ''Station-service'');
          adresse = str_or (adresse station) [];
          ville = str_or (ville station) [];
          cp = str_or (cp station) [];
          adresseComplete = trim (collapse_commas (adresse @ js '', '' @ cp @ js '' '' @ ville @ js '', France''));
          coords =
            (if truthy (latitude station) \<and> truthy (longitude station) then
               (let lat = js_div (parseFloat (latitude station)) (Fin 100000);
                    lon = js_div (parseFloat (longitude station)) (Fin 100000)
                in if \<not> isNaN lat \<and> \<not> isNaN lon \<and> lat \<noteq> Fin 0 \<and> lon \<noteq> Fin 0
                   then Some (lat, lon) else None)
             else None)
      in case coords of
           Some (lat, lon) \<Rightarrow>
             Inr (js ''https://www.google.com/maps/search/?api=1&query='' @ numberToString h lat
                  @ js '','' @ numberToString h lon)
         | None \<Rightarrow>
             (let searchQuery =
                    (if marque \<noteq> [] \<and> marque \<noteq> js ''Station-service'' \<and> trim marque \<noteq> []
                     then marque @ js '' '' @ adresseComplete
                     else js ''Station-service '' @ adresseComplete)
              in case encodeURIComponent searchQuery of
                   Inl e \<Rightarrow> Inl e
                 | Inr encodedQuery \<Rightarrow> Inr (js ''https://www.google.com/maps/search/'' @ encodedQuery)))"

section \<open>SearchController\<close>

text \<open>The content of the \<open>resultats\<close> element: what the page had before any search, the
  loading indicator, an error message, the no-result notice, or the cards of the stations,
  each with the freshness class of its prices.\<close>

datatype view =
  Initial
| Loading
| ErrorMessage js_error
| NoResults
| Results "(station \<times> age list) list"

record app =
  stationsData :: "station list"
  filteredStations :: "station list"
  isLoading :: bool
  resultats :: view

text \<open>The controls of the page as a handler reads them; a \<open>select\<close> that the page does
  not have is \<open>None\<close>.\<close>

record controls =
  villeInput :: jsstring
  triSelect :: "jsstring option"
  typeStationSelect :: "jsstring option"
  horairesSelect :: "jsstring option"
  checkedFuels :: "jsstring list"

text \<open>A card calls \<open>prix.valeur.toFixed(3)\<close> for every price: a value that is not a
  number raises a TypeError.\<close>

definition creerCarteStation :: "host \<Rightarrow> int \<Rightarrow> station \<Rightarrow> js_error + station \<times> age list" where
  "creerCarteStation h now st =
     (if list_all (\<lambda>p. case valeur p of JNum x \<Rightarrow> True | _ \<Rightarrow> False) (prix st)
      then Inr (st, map (\<lambda>p. getDataAge h now (maj p)) (prix st))
      else Inl TypeError)"

fun creerCartes :: "host \<Rightarrow> int \<Rightarrow> station list \<Rightarrow> js_error + (station \<times> age list) list" where
  "creerCartes h now [] = Inr []"
| "creerCartes h now (s # ss) =
     (case creerCarteStation h now s of
        Inl e \<Rightarrow> Inl e
      | Inr c \<Rightarrow> (case creerCartes h now ss of Inl e \<Rightarrow> Inl e | Inr cs \<Rightarrow> Inr (c # cs)))"

definition afficherResultats :: "host \<Rightarrow> int \<Rightarrow> station list \<Rightarrow> js_error + view" where
  "afficherResultats h now stations =
     (if stations = [] then Inr NoResults
      else (case creerCartes h now stations of Inl e \<Rightarrow> Inl e | Inr cards \<Rightarrow> Inr (Results cards)))"

text \<open>The handler returns the new state and the error it raised, if any: what it
  assigned before raising stays assigned.\<close>

definition appliquerFiltres :: "host \<Rightarrow> int \<Rightarrow> controls \<Rightarrow> app \<Rightarrow> app \<times> js_error option" where
  "appliquerFiltres h now ctl a =
     (if stationsData a = [] then (a, None)
      else
        (let stations = stationsData a;
             stations = filtrer_type (str_or (typeStationSelect ctl) []) stations;
             stations = filtrer_horaires (str_or (horairesSelect ctl) []) stations;
             stations = filtrer_carburants (checkedFuels ctl) stations;
             tri = str_or (triSelect ctl) (js ''date-maj'');
             stations = trierStations h stations tri;
             a1 = a\<lparr>filteredStations := stations\<rparr>
         in case afficherResultats h now stations of
              Inl e \<Rightarrow> (a1, Some e)
            | Inr v \<Rightarrow> (a1\<lparr>resultats := v\<rparr>, None)))"

datatype effect = Alert jsstring | Fetch jsstring

text \<open>\<open>rechercherStations\<close> up to its \<open>await\<close>: the new state and what it asked of the
  browser. A city name that \<open>encodeURIComponent\<close> rejects ends the search at once, through
  \<open>catch\<close> and \<open>finally\<close>.\<close>

definition rechercherStations :: "controls \<Rightarrow> app \<Rightarrow> app \<times> effect list" where
  "rechercherStations ctl a =
     (let ville = trim (villeInput ctl) in
      if ville = [] then (a, [Alert (js ''Veuillez saisir le nom d'' @ [0x27] @ js ''une ville'')])
      else if isLoading a then (a, [])
      else
        (case encodeURIComponent ville of
           Inl e \<Rightarrow> (a\<lparr>resultats := ErrorMessage e, isLoading := False\<rparr>, [])
         | Inr q \<Rightarrow> (a\<lparr>resultats := Loading, isLoading := True\<rparr>, [Fetch (js ''/api/search?ville='' @ q)])))"

text \<open>What the request settles with: \<open>fetch\<close> rejects, the body is not JSON, or a response
  with its \<open>ok\<close> flag and its payload.\<close>

record payload =
  data_stations :: "station list option"
  data_error :: "jsstring option"

datatype response = NetworkFailure | BadBody | Response bool payload

text \<open>\<open>rechercherStations\<close> from its \<open>await\<close> on: the \<open>try\<close> block, then \<open>catch\<close> and
  \<open>finally\<close>.\<close>

definition rechercherStations_try :: "host \<Rightarrow> int \<Rightarrow> controls \<Rightarrow> response \<Rightarrow> app \<Rightarrow> app \<times> js_error option" where
  "rechercherStations_try h now ctl resp a =
     (case resp of
        NetworkFailure \<Rightarrow> (a, Some TypeError)
      | BadBody \<Rightarrow> (a, Some SyntaxError)
      | Response ok data \<Rightarrow>
          if \<not> ok then (a, Some (Error (str_or (data_error data) (js ''Erreur lors de la recherche''))))
          else
            (let sd = (case data_stations data of None \<Rightarrow> [] | Some l \<Rightarrow> l);
                 a1 = a\<lparr>stationsData := sd\<rparr>;
                 a2 = a1\<lparr>filteredStations := stationsData a1\<rparr>
             in appliquerFiltres h now ctl a2))"

definition rechercherStations_settle :: "host \<Rightarrow> int \<Rightarrow> controls \<Rightarrow> response \<Rightarrow> app \<Rightarrow> app" where
  "rechercherStations_settle h now ctl resp a =
     (case rechercherStations_try h now ctl resp a of
        (a', None) \<Rightarrow> a'\<lparr>isLoading := False\<rparr>
      | (a', Some e) \<Rightarrow> a'\<lparr>resultats := ErrorMessage e, isLoading := False\<rparr>)"

subsection \<open>The page as a transition system\<close>

text \<open>The state of the controller with the number of search requests in flight; an
  event is a search trigger, the settling of a request in flight, or a change of a filter
  or sort control.\<close>

record world =
  ctrl :: app
  inflight :: nat

datatype event = Search controls | Settle int controls response | FilterChange int controls

definition is_fetch :: "effect \<Rightarrow> bool" where
  "is_fetch e = (case e of Fetch u \<Rightarrow> True | Alert m \<Rightarrow> False)"

fun step :: "host \<Rightarrow> world \<Rightarrow> event \<Rightarrow> world option" where
  "step h w (Search ctl) =
     (case rechercherStations ctl (ctrl w) of
        (a', effs) \<Rightarrow> Some \<lparr>ctrl = a', inflight = inflight w + length (filter is_fetch effs)\<rparr>)"
| "step h w (Settle now ctl resp) =
     (if inflight w = 0 then None
      else Some \<lparr>ctrl = rechercherStations_settle h now ctl resp (ctrl w), inflight = inflight w - 1\<rparr>)"
| "step h w (FilterChange now ctl) =
     Some (w\<lparr>ctrl := fst (appliquerFiltres h now ctl (ctrl w))\<rparr>)"

fun run :: "host \<Rightarrow> world \<Rightarrow> event list \<Rightarrow> world option" where
  "run h w [] = Some w"
| "run h w (e # es) = (case step h w e of None \<Rightarrow> None | Some w' \<Rightarrow> run h w' es)"

text \<open>The constructor of \<open>CarburantApp\<close>.\<close>

definition constructor :: world where
  "constructor = \<lparr>ctrl = \<lparr>stationsData = [], filteredStations = [], isLoading = False, resultats = Initial\<rparr>,
                  inflight = 0\<rparr>"

section \<open>Notions used to state the properties\<close>

text \<open>When the comparator ranks \<open>x\<close> after \<open>y\<close>: its result is a positive number.\<close>

definition above :: "('a \<Rightarrow> 'a \<Rightarrow> jsnum) \<Rightarrow> 'a \<Rightarrow> 'a \<Rightarrow> bool" where
  "above cmp x y \<longleftrightarrow> js_less (Fin 0) (cmp x y)"

text \<open>A rational that is a double, and a Number that is a multiple of the least
  subnormal (every finite double is one) or an infinity.\<close>

definition is_double :: "rat \<Rightarrow> bool" where
  "is_double c \<longleftrightarrow>
     c = 0 \<or>
     (let q = 2 powi (max (floor_log2 \<bar>c\<bar>) (- 1022) - 52)
      in of_int \<lfloor>\<bar>c\<bar> / q\<rfloor> = \<bar>c\<bar> / q \<and> \<bar>c\<bar> < 2 powi 1024)"

definition ulp_min :: rat where
  "ulp_min = 2 powi (- 1074)"

definition on_grid :: "jsnum \<Rightarrow> bool" where
  "on_grid x = (case x of Fin r \<Rightarrow> of_int \<lfloor>r / ulp_min\<rfloor> = r / ulp_min | NaN \<Rightarrow> False | _ \<Rightarrow> True)"

definition is_finite :: "jsnum \<Rightarrow> bool" where
  "is_finite x = (case x of Fin r \<Rightarrow> True | _ \<Rightarrow> False)"

text \<open>A price entry with its value replaced by the number 0 when the value is falsy
  (absent, \<open>null\<close>, \<open>false\<close>, 0, NaN, the empty string).\<close>

definition zero_if_falsy :: "price_entry \<Rightarrow> price_entry" where
  "zero_if_falsy p = (if truthy (valeur p) then p else p\<lparr>valeur := JNum (Fin 0)\<rparr>)"

text \<open>The coordinates are usable: both are present, both parse as numbers, and neither is
  zero once divided by \<open>10^5\<close>.\<close>

definition coordinates_usable :: "station \<Rightarrow> bool" where
  "coordinates_usable st \<longleftrightarrow>
     truthy (latitude st) \<and> truthy (longitude st) \<and>
     parseFloat (latitude st) \<noteq> NaN \<and> parseFloat (longitude st) \<noteq> NaN \<and>
     js_div (parseFloat (latitude st)) (Fin 100000) \<noteq> Fin 0 \<and>
     js_div (parseFloat (longitude st)) (Fin 100000) \<noteq> Fin 0"

definition coordinate_url :: "host \<Rightarrow> station \<Rightarrow> jsstring" where
  "coordinate_url h st =
     js ''https://www.google.com/maps/search/?api=1&query=''
       @ numberToString h (js_div (parseFloat (latitude st)) (Fin 100000)) @ js '',''
       @ numberToString h (js_div (parseFloat (longitude st)) (Fin 100000))"

text \<open>The text query: the brand, or the placeholder when the brand is absent or blank,
  then the full address with its doubled commas collapsed.\<close>

definition full_address :: "station \<Rightarrow> jsstring" where
  "full_address st =
     trim (collapse_commas (str_or (adresse st) [] @ js '', '' @ str_or (cp st) [] @ js '' ''
                            @ str_or (ville st) [] @ js '', France''))"

definition text_query :: "station \<Rightarrow> jsstring" where
  "text_query st =
     (case marque st of
        None \<Rightarrow> js ''Station-service''
      | Some m \<Rightarrow> if trim m = [] then js ''Station-service'' else m)
     @ js '' '' @ full_address st"

text \<open>A string in which every surrogate is half of a pair.\<close>

fun well_formed_utf16 :: "jsstring \<Rightarrow> bool" where
  "well_formed_utf16 [] = True"
| "well_formed_utf16 (c # cs) =
     (if is_lead c then
        (case cs of [] \<Rightarrow> False | d # ds \<Rightarrow> is_trail d \<and> well_formed_utf16 ds)
      else \<not> is_trail c \<and> well_formed_utf16 cs)"

text \<open>A search that fails: a network error, a body that is not JSON, or a response that
  is not a success.\<close>

fun failed :: "response \<Rightarrow> bool" where
  "failed NetworkFailure = True"
| "failed BadBody = True"
| "failed (Response ok data) = (\<not> ok)"

section \<open>Example records\<close>

text \<open>A browser in UTC; its \<open>numberToString\<close> is given on the two coordinates of the
  examples.\<close>

definition host_utc :: host where
  "host_utc = \<lparr>localTZA = (\<lambda>t. 0), localeCompare = (\<lambda>a b. 0),
     numberToString = (\<lambda>x. if x = Fin (6875026306157773 / 140737488355328) then js ''48.85''
                            else if x = Fin (5291729562160333 / 2251799813685248) then js ''2.35''
                            else [])\<rparr>"

text \<open>The doubles that the JSON texts 1.85 and 1.72 denote.\<close>

definition prix_1_85 :: jsnum where
  "prix_1_85 = Fin (4165829655317709 / 2251799813685248)"

definition prix_1_72 :: jsnum where
  "prix_1_72 = Fin (7746191359077253 / 4503599627370496)"

definition maj_2025 :: jsval where
  "maj_2025 = JStr (js ''15/01/2025 '' @ [0xE0] @ js '' 08:00'')"

definition maj_2024 :: jsval where
  "maj_2024 = JStr (js ''01/03/2024 '' @ [0xE0] @ js '' 00:00'')"

definition station_A :: station where
  "station_A = \<lparr>marque = Some (js ''TOTAL''), adresse = Some (js ''1 rue de Paris''),
     cp = Some (js ''75001''), ville = Some (js ''Paris''), type = Some (js ''Autoroute''),
     automate_24h = True, horaires = Some (js ''Horaires non disponibles''),
     latitude = JStr (js ''4885000''), longitude = JStr (js ''235000''),
     prix = [\<lparr>nom = js ''SP95'', valeur = JNum prix_1_85, maj = maj_2025\<rparr>,
             \<lparr>nom = js ''Gazole'', valeur = JNum prix_1_72, maj = maj_2025\<rparr>]\<rparr>"

definition station_B :: station where
  "station_B = \<lparr>marque = None, adresse = Some (js ''2 avenue Foch''), cp = None, ville = None,
     type = Some (js ''Route''), automate_24h = False, horaires = None,
     latitude = JNum (Fin 0), longitude = JNum (Fin 0), prix = []\<rparr>"

definition station_C :: station where
  "station_C = \<lparr>marque = Some (js ''ESSO''), adresse = Some (js ''3 quai de Seine''),
     cp = Some (js ''75004''), ville = Some (js ''Paris''), type = Some (js ''Route''),
     automate_24h = False, horaires = Some (js ''08:00-20:00''),
     latitude = JNull, longitude = JNull,
     prix = [\<lparr>nom = js ''E10'', valeur = JNum (Fin (3 / 2)), maj = maj_2024\<rparr>]\<rparr>"

text \<open>A price that is a string without a number, and a brand with a lone surrogate.\<close>

definition station_prix_texte :: station where
  "station_prix_texte = station_C\<lparr>prix := [\<lparr>nom = js ''E10'', valeur = JStr (js ''abc''), maj = maj_2024\<rparr>]\<rparr>"

definition station_prix_absent :: station where
  "station_prix_absent = station_C\<lparr>prix := [\<lparr>nom = js ''E10'', valeur = JNull, maj = maj_2024\<rparr>,
                                            \<lparr>nom = js ''SP98'', valeur = JNum (Fin 2), maj = maj_2024\<rparr>]\<rparr>"

text \<open>The prices \<open>null\<close> and the string \<open>2\<close>.\<close>

definition station_prix_chaine :: station where
  "station_prix_chaine = station_C\<lparr>prix := [\<lparr>nom = js ''E10'', valeur = JNull, maj = maj_2024\<rparr>,
                                            \<lparr>nom = js ''SP98'', valeur = JStr (js ''2''), maj = maj_2024\<rparr>]\<rparr>"

text \<open>Two prices of \<open>2^1023\<close>, a double whose double is beyond the largest one.\<close>

definition station_prix_enorme :: station where
  "station_prix_enorme = station_C\<lparr>prix := [\<lparr>nom = js ''E10'', valeur = JNum (Fin (2 ^ 1023)), maj = maj_2024\<rparr>,
                                            \<lparr>nom = js ''SP98'', valeur = JNum (Fin (2 ^ 1023)), maj = maj_2024\<rparr>]\<rparr>"

definition station_marque_invalide :: station where
  "station_marque_invalide = station_C\<lparr>marque := Some [0xD83D]\<rparr>"

definition ctl_defaut :: controls where
  "ctl_defaut = \<lparr>villeInput = js ''Paris'', triSelect = Some (js ''date-maj''),
     typeStationSelect = Some [], horairesSelect = Some [], checkedFuels = []\<rparr>"

definition app_charge :: app where
  "app_charge = \<lparr>stationsData = [station_A, station_B], filteredStations = [station_A],
     isLoading = True, resultats = Loading\<rparr>"

text \<open>A page that shows one of two stations and has no search in flight.\<close>

definition app_pret :: app where
  "app_pret = \<lparr>stationsData = [station_A, station_B], filteredStations = [station_A],
     isLoading = False, resultats = Results [(station_A, [Fresh, Fresh])]\<rparr>"

section \<open>Rounding to the nearest double\<close>

lemma floor_log2_bounds:
  assumes "0 < a"
  shows "2 powi (floor_log2 a) \<le> a \<and> a < 2 powi (floor_log2 a + 1)"
proof (cases "1 \<le> a")
  case True
  define x where "x = \<lfloor>a\<rfloor>"
  have x: "0 < x" using True by (simp add: x_def)
  have b: "2 ^ nat (bitlen x - 1) \<le> x" "x < 2 ^ nat (bitlen x)"
    using bitlen_bounds [OF x] by auto
  have b1: "1 \<le> bitlen x" using x by (auto simp: bitlen_alt_def)
  have fl: "floor_log2 a = bitlen x - 1" using True by (simp add: floor_log2_def x_def)
  have "(2::rat) powi (bitlen x - 1) = of_int (2 ^ nat (bitlen x - 1))"
    using b1 by (simp add: power_int_nonneg_exp)
  also have "\<dots> \<le> of_int x" using b(1) by (simp only: of_int_le_iff)
  also have "\<dots> \<le> a" by (simp add: x_def)
  finally have lo: "2 powi (bitlen x - 1) \<le> a" .
  have "x + 1 \<le> 2 ^ nat (bitlen x)" using b(2) by simp
  then have "(of_int (x + 1) :: rat) \<le> of_int (2 ^ nat (bitlen x))" by (simp only: of_int_le_iff)
  moreover have "a < of_int (x + 1)" unfolding x_def by linarith
  moreover have "(2::rat) powi (bitlen x) = of_int (2 ^ nat (bitlen x))"
    using b1 by (simp add: power_int_nonneg_exp)
  ultimately have hi: "a < 2 powi (bitlen x)" by simp
  show ?thesis using lo hi fl by simp
next
  case False
  define y where "y = \<lceil>1 / a\<rceil>"
  define x where "x = y - 1"
  have inv: "1 < 1 / a" using assms False by simp
  have y2: "2 \<le> y" unfolding y_def using inv by linarith
  have x: "0 < x" using y2 by (simp add: x_def)
  have b: "2 ^ nat (bitlen x - 1) \<le> x" "x < 2 ^ nat (bitlen x)"
    using bitlen_bounds [OF x] by auto
  have b1: "1 \<le> bitlen x" using x by (auto simp: bitlen_alt_def)
  have fl: "floor_log2 a = - bitlen x" using False by (simp add: floor_log2_def x_def y_def)
  have "1 / a \<le> of_int y" unfolding y_def by linarith
  also have "(of_int y :: rat) \<le> of_int (2 ^ nat (bitlen x))"
    using b(2) unfolding x_def by (simp only: of_int_le_iff)
  also have "\<dots> = 2 powi (bitlen x)" using b1 by (simp add: power_int_nonneg_exp)
  finally have "1 / a \<le> 2 powi (bitlen x)" .
  then have lo: "2 powi (- bitlen x) \<le> a"
    using assms by (simp add: power_int_minus field_simps)
  have "(2::rat) powi (bitlen x - 1) = of_int (2 ^ nat (bitlen x - 1))"
    using b1 by (simp add: power_int_nonneg_exp)
  also have "\<dots> \<le> of_int x" using b(1) by (simp only: of_int_le_iff)
  also have "(of_int x :: rat) < 1 / a" unfolding x_def y_def by linarith
  finally have "2 powi (bitlen x - 1) < 1 / a" .
  then have "a < 1 / 2 powi (bitlen x - 1)"
    using assms by (simp add: field_simps)
  also have "1 / 2 powi (bitlen x - 1) = (2::rat) powi (- bitlen x + 1)"
    by (simp add: power_int_minus_divide [symmetric])
  finally have hi: "a < 2 powi (- bitlen x + 1)" .
  show ?thesis using lo hi fl by simp
qed

lemma floor_log2_eqI:
  assumes "2 powi e \<le> a" "a < 2 powi (e + 1)"
  shows "floor_log2 a = e"
proof -
  have pos: "0 < a" using assms(1) by (meson less_le_trans zero_less_numeral zero_less_power_int)
  have "(2::rat) powi (floor_log2 a) < 2 powi (e + 1)"
    using floor_log2_bounds [OF pos] assms by linarith
  then have 1: "floor_log2 a < e + 1"
    by (metis linorder_not_le one_le_numeral power_int_increasing)
  have "(2::rat) powi e < 2 powi (floor_log2 a + 1)"
    using floor_log2_bounds [OF pos] assms by linarith
  then have 2: "e < floor_log2 a + 1"
    by (metis linorder_not_le one_le_numeral power_int_increasing)
  show ?thesis using 1 2 by simp
qed

lemma floor_log2_mono:
  assumes "0 < a" "a \<le> b"
  shows "floor_log2 a \<le> floor_log2 b"
proof -
  have "(2::rat) powi (floor_log2 a) < 2 powi (floor_log2 b + 1)"
    using floor_log2_bounds [of a] floor_log2_bounds [of b] assms by linarith
  then have "floor_log2 a < floor_log2 b + 1"
    by (metis linorder_not_le one_le_numeral power_int_increasing)
  then show ?thesis by simp
qed


lemma round_half_even_le:
  "x \<le> of_int M \<Longrightarrow> round_half_even x \<le> M"
  unfolding round_half_even_def Let_def
  by (auto simp: floor_le_iff le_floor_iff)

lemma round_half_even_ge:
  "of_int M \<le> x \<Longrightarrow> M \<le> round_half_even x"
  unfolding round_half_even_def Let_def
  by (auto simp: le_floor_iff) linarith+

lemma round_half_even_of_int [simp]: "round_half_even (of_int M) = M"
  by (simp add: round_half_even_def)


lemma round_double_not_NaN [simp]: "round_double r \<noteq> NaN"
  by (simp add: round_double_def Let_def)

lemma round_double_minus: "round_double (- r) = js_neg (round_double r)"
  by (simp add: round_double_def Let_def)

text \<open>Rounding a positive number never crosses a double: below a double it stays below,
  above a double it stays above.\<close>

lemma round_double_upper:
  assumes r: "0 < r" "r \<le> c" and c: "is_double c"
  shows "\<exists>v. round_double r = Fin v \<and> 0 \<le> v \<and> v \<le> c"
proof -
  have cpos: "0 < c" using r by simp
  define er where "er = max (floor_log2 r) (- 1022)"
  define ec where "ec = max (floor_log2 c) (- 1022)"
  define M where "M = \<lfloor>c / 2 powi (ec - 52)\<rfloor>"
  have "of_int M = c / 2 powi (ec - 52)" and cmax: "c < 2 powi 1024"
    using c cpos by (auto simp: is_double_def Let_def M_def ec_def)
  then have cM: "c = of_int M * 2 powi (ec - 52)" by simp
  have le: "er \<le> ec"
    using floor_log2_mono [OF r] by (simp add: er_def ec_def)
  have "(2::rat) powi (ec - 52) = 2 powi (ec - er) * 2 powi (er - 52)"
    by (simp add: power_int_add [symmetric])
  also have "(2::rat) powi (ec - er) = of_int (2 ^ nat (ec - er))"
    using le by (simp add: power_int_nonneg_exp)
  finally have "c = of_int (M * 2 ^ nat (ec - er)) * 2 powi (er - 52)"
    using cM by simp
  then have "r / 2 powi (er - 52) \<le> of_int (M * 2 ^ nat (ec - er))"
    using r(2) by (simp add: field_simps)
  then have n: "round_half_even (r / 2 powi (er - 52)) \<le> M * 2 ^ nat (ec - er)"
    by (rule round_half_even_le)
  have n0: "0 \<le> round_half_even (r / 2 powi (er - 52))"
    using r(1) by (intro round_half_even_ge) simp
  define v where "v = of_int (round_half_even (r / 2 powi (er - 52))) * (2::rat) powi (er - 52)"
  have "v \<le> of_int (M * 2 ^ nat (ec - er)) * 2 powi (er - 52)"
    unfolding v_def using n by (intro mult_right_mono) (simp_all only: of_int_le_iff zero_le_power_int zero_le_numeral)
  then have vc: "v \<le> c" using \<open>c = of_int (M * 2 ^ nat (ec - er)) * 2 powi (er - 52)\<close> by simp
  have v0: "0 \<le> v" unfolding v_def using n0 by simp
  have "round_double r = Fin v"
    using r(1) vc cmax by (simp add: round_double_def Let_def er_def [symmetric] v_def [symmetric])
  then show ?thesis using vc v0 by blast
qed

lemma round_double_lower:
  assumes c: "0 < c" "c \<le> r" "is_double c"
  shows "round_double r = PInf \<or> (\<exists>v. round_double r = Fin v \<and> c \<le> v)"
proof -
  have rpos: "0 < r" using c by simp
  define er where "er = max (floor_log2 r) (- 1022)"
  define ec where "ec = max (floor_log2 c) (- 1022)"
  define M where "M = \<lfloor>c / 2 powi (ec - 52)\<rfloor>"
  define v where "v = of_int (round_half_even (r / 2 powi (er - 52))) * (2::rat) powi (er - 52)"
  have "of_int M = c / 2 powi (ec - 52)"
    using c by (auto simp: is_double_def Let_def M_def ec_def)
  then have cM: "c = of_int M * 2 powi (ec - 52)" by simp
  have le: "ec \<le> er"
    using floor_log2_mono [OF c(1,2)] by (simp add: er_def ec_def)
  have cv: "c \<le> v"
  proof (cases "ec = er")
    case True
    have "of_int M \<le> r / 2 powi (er - 52)"
      using cM c(2) True by (simp add: field_simps)
    then have "M \<le> round_half_even (r / 2 powi (er - 52))"
      by (rule round_half_even_ge)
    then have "of_int M * 2 powi (er - 52) \<le> v"
      unfolding v_def by (intro mult_right_mono) (simp_all only: of_int_le_iff zero_le_power_int zero_le_numeral)
    then show ?thesis using cM True by simp
  next
    case False
    then have lt: "ec < er" using le by simp
    then have er: "er = floor_log2 r" by (auto simp: er_def ec_def)
    have "2 powi er \<le> r" using floor_log2_bounds [OF rpos] er by simp
    then have "of_int (2 ^ 52) \<le> r / 2 powi (er - 52)"
      by (simp add: power_int_diff field_simps)
    then have "2 ^ 52 \<le> round_half_even (r / 2 powi (er - 52))"
      by (rule round_half_even_ge)
    then have "of_int (2 ^ 52) * 2 powi (er - 52) \<le> v"
      unfolding v_def by (intro mult_right_mono) (simp_all only: of_int_le_iff zero_le_power_int zero_le_numeral)
    then have "2 powi er \<le> v" by (simp add: power_int_diff)
    moreover have "c < 2 powi (floor_log2 c + 1)" using floor_log2_bounds [OF c(1)] by simp
    moreover have "(2::rat) powi (floor_log2 c + 1) \<le> 2 powi er"
      using lt by (intro power_int_increasing) (auto simp: ec_def)
    ultimately show ?thesis by linarith
  qed
  show ?thesis
    using rpos cv by (auto simp: round_double_def Let_def er_def [symmetric] v_def [symmetric])
qed


lemma is_double_minus: "is_double (- c) = is_double c"
  by (simp add: is_double_def)

lemma round_double_exact:
  assumes "is_double c"
  shows "round_double c = Fin c"
proof -
  have pos: "round_double c = Fin c" if "0 < c" "is_double c" for c
    using round_double_upper [OF that(1) order_refl that(2)] round_double_lower [OF that(1) order_refl that(2)]
    by auto
  consider "c = 0" | "0 < c" | "0 < - c" by linarith
  then show ?thesis
  proof cases
    case 1
    then show ?thesis by (simp add: round_double_def)
  next
    case 2
    then show ?thesis using pos assms by simp
  next
    case 3
    then have "round_double (- c) = Fin (- c)" using pos assms by (simp add: is_double_minus)
    then show ?thesis using round_double_minus [of "- c"] by simp
  qed
qed

lemma round_half_even_eqI:
  assumes "\<bar>x - of_int n\<bar> < 1 / 2"
  shows "round_half_even x = n"
proof -
  have b: "x - of_int n < 1 / 2" "- (x - of_int n) < 1 / 2"
    using assms unfolding abs_less_iff by blast+
  have "of_int (n - 1) \<le> x" "x < of_int (n + 1)"
    using b by simp_all
  then have "n - 1 \<le> \<lfloor>x\<rfloor>" "\<lfloor>x\<rfloor> < n + 1"
    by (simp_all only: le_floor_iff floor_less_iff)
  then consider "\<lfloor>x\<rfloor> = n" | "\<lfloor>x\<rfloor> = n - 1" by linarith
  then show ?thesis
  proof cases
    case 1
    then show ?thesis using b by (auto simp: round_half_even_def Let_def)
  next
    case 2
    then show ?thesis using b by (auto simp: round_half_even_def Let_def)
  qed
qed

lemma round_half_even_tie:
  assumes "x = of_int f + 1 / 2"
  shows "round_half_even x = (if even f then f else f + 1)"
proof -
  have "\<lfloor>x\<rfloor> = f" unfolding assms by (rule floor_unique) simp_all
  then show ?thesis by (simp add: round_half_even_def Let_def assms)
qed

lemma round_double_eval:
  assumes "0 < r" "2 powi e \<le> r" "r < 2 powi (e + 1)" "- 1022 \<le> e"
    and rh: "round_half_even (r / 2 powi (e - 52)) = n"
    and "of_int n * 2 powi (e - 52) < (2::rat) powi 1024"
  shows "round_double r = Fin (of_int n * 2 powi (e - 52))"
proof -
  have "floor_log2 r = e" using assms(2,3) by (rule floor_log2_eqI)
  then have m: "max (floor_log2 r) (- 1022) = e" using assms(4) by simp
  have a: "\<bar>r\<bar> = r" "r \<noteq> 0" using assms(1) by simp_all
  have "\<not> (2::rat) powi 1024 \<le> of_int n * 2 powi (e - 52)" using assms(6) by (simp only: not_le)
  then show ?thesis
    unfolding round_double_def Let_def a m rh using assms(1) a(2) by (simp only: if_False if_True)
qed

text \<open>The sign of a rounded number.\<close>

lemma round_double_pos:
  assumes "0 < r"
  shows "round_double r = PInf \<or> (\<exists>v. round_double r = Fin v \<and> 0 \<le> v)"
proof -
  have "0 \<le> round_half_even (\<bar>r\<bar> / 2 powi (max (floor_log2 \<bar>r\<bar>) (- 1022) - 52))"
    by (rule round_half_even_ge) simp
  then show ?thesis using assms by (auto simp: round_double_def Let_def)
qed

lemma round_double_neg:
  assumes "r < 0"
  shows "round_double r = NInf \<or> (\<exists>v. round_double r = Fin v \<and> v \<le> 0)"
  using round_double_pos [of "- r"] assms round_double_minus [of "- r"] by auto

lemma round_double_nonpos:
  assumes "r \<le> 0"
  shows "round_double r = NInf \<or> (\<exists>v. round_double r = Fin v \<and> v \<le> 0)"
  using round_double_neg [of r] assms by (cases "r = 0") (auto simp: round_double_def)

text \<open>A rounded number is a multiple of the least subnormal, and two such multiples
  differ by at least the least subnormal, which is a double: their difference never
  rounds to zero.\<close>

lemma ulp_min_pos: "0 < ulp_min"
  by (simp add: ulp_min_def)

lemma round_double_on_grid: "on_grid (round_double r)"
proof (cases "r = 0")
  case True
  then show ?thesis by (simp add: round_double_def on_grid_def)
next
  case False
  define e where "e = max (floor_log2 \<bar>r\<bar>) (- 1022)"
  define n where "n = round_half_even (\<bar>r\<bar> / 2 powi (e - 52))"
  have e: "0 \<le> e + 1022" by (simp add: e_def)
  have ex: "e - 52 + 1074 = e + 1022" by simp
  have "(2::rat) powi (e - 52) / ulp_min = 2 powi (e - 52) * 2 powi 1074"
    unfolding ulp_min_def by (simp only: power_int_minus divide_inverse inverse_inverse_eq)
  also have "\<dots> = 2 powi (e - 52 + 1074)"
    by (rule power_int_add [symmetric]) simp
  also have "\<dots> = of_int (2 ^ nat (e + 1022))"
    unfolding ex using e by (simp add: power_int_nonneg_exp)
  finally have q: "(2::rat) powi (e - 52) / ulp_min = of_int (2 ^ nat (e + 1022))" .
  have v: "of_int n * 2 powi (e - 52) / ulp_min = of_int (n * 2 ^ nat (e + 1022))"
    using q by (simp add: times_divide_eq_right [symmetric] del: times_divide_eq_right)
  have g1: "on_grid (Fin (of_int n * 2 powi (e - 52)))"
    unfolding on_grid_def jsnum.case v by (simp only: floor_of_int)
  have "- (of_int n * 2 powi (e - 52)) / ulp_min = of_int (- (n * 2 ^ nat (e + 1022)))"
    using v by (simp only: minus_divide_left [symmetric] of_int_minus)
  then have g2: "on_grid (Fin (- (of_int n * 2 powi (e - 52))))"
    unfolding on_grid_def jsnum.case by (simp only: floor_of_int)
  have "round_double r = PInf \<or> round_double r = NInf
        \<or> round_double r = Fin (of_int n * 2 powi (e - 52))
        \<or> round_double r = Fin (- (of_int n * 2 powi (e - 52)))"
    using False by (simp add: round_double_def Let_def e_def n_def)
  then show ?thesis using g1 g2 by (auto simp: on_grid_def)
qed

lemma floor_log2_ulp_min: "floor_log2 ulp_min = - 1074"
  unfolding ulp_min_def by (rule floor_log2_eqI) (simp_all add: power_int_increasing)

lemma is_double_ulp_min: "is_double ulp_min"
proof -
  have "max (floor_log2 \<bar>ulp_min\<bar>) (- 1022) - 52 = - 1074"
    using ulp_min_pos by (simp add: floor_log2_ulp_min)
  moreover have "ulp_min < 2 powi 1024"
    unfolding ulp_min_def by (rule power_int_strict_increasing) simp_all
  ultimately have q: "2 powi (max (floor_log2 \<bar>ulp_min\<bar>) (- 1022) - 52) = ulp_min"
    and m: "\<bar>ulp_min\<bar> < 2 powi 1024"
    using ulp_min_pos by (simp_all only: ulp_min_def [symmetric] abs_of_pos)
  have a: "\<bar>ulp_min\<bar> = ulp_min" "ulp_min / ulp_min = 1"
    using ulp_min_pos by simp_all
  show ?thesis
    unfolding is_double_def Let_def q using m by (simp only: a floor_one of_int_1 simp_thms)
qed

lemma grid_difference:
  assumes "on_grid (Fin x)" "on_grid (Fin y)" "y < x"
  shows "ulp_min \<le> x - y"
proof -
  obtain m n :: int where m: "x / ulp_min = of_int m" and n: "y / ulp_min = of_int n"
    using assms(1,2) by (auto simp: on_grid_def)
  have "y / ulp_min < x / ulp_min"
    using assms(3) ulp_min_pos by (simp add: divide_strict_right_mono)
  then have "n < m" unfolding m n by simp
  then have "(of_int n :: rat) + 1 \<le> of_int m" by linarith
  then have "y / ulp_min + 1 \<le> x / ulp_min" unfolding m n .
  then have "(y / ulp_min + 1) * ulp_min \<le> x / ulp_min * ulp_min"
    using ulp_min_pos by (intro mult_right_mono) simp_all
  then show ?thesis using ulp_min_pos by (simp add: distrib_right)
qed

lemma pos_sub_iff:
  assumes "on_grid a" "on_grid b"
  shows "js_less (Fin 0) (js_sub a b) \<longleftrightarrow> js_less b a"
proof (cases a)
  case (Fin x)
  note a = this
  show ?thesis
  proof (cases b)
    case (Fin y)
    consider "y < x" | "x = y" | "x < y" by linarith
    then show ?thesis
    proof cases
      case 1
      have "round_double (x - y) = PInf \<or> (\<exists>v. round_double (x - y) = Fin v \<and> ulp_min \<le> v)"
        using grid_difference [OF assms [unfolded a Fin] 1] ulp_min_pos is_double_ulp_min
        by (intro round_double_lower) auto
      then show ?thesis using 1 a Fin ulp_min_pos by (auto simp: js_sub_def)
    next
      case 2
      then show ?thesis using a Fin by (simp add: js_sub_def round_double_def)
    next
      case 3
      then show ?thesis using a Fin round_double_neg [of "x - y"] by (auto simp: js_sub_def)
    qed
  qed (use a assms in \<open>auto simp: js_sub_def on_grid_def\<close>)
qed (use assms in \<open>cases b; auto simp: js_sub_def on_grid_def\<close>)+

text \<open>Every quotient of an integer below \<open>2^53\<close> by a power of two down to \<open>2^1074\<close> is a
  double, and rounds to itself.\<close>

lemma floor_log2_dyadic:
  assumes "0 < a"
  shows "floor_log2 (a / 2 ^ j) = floor_log2 a - int j"
proof (rule floor_log2_eqI)
  have p: "(2::rat) powi (floor_log2 a - int j) = 2 powi (floor_log2 a) / 2 ^ j"
    by (simp add: power_int_diff)
  show "2 powi (floor_log2 a - int j) \<le> a / 2 ^ j"
    unfolding p using floor_log2_bounds [OF assms] by (simp add: divide_right_mono)
  have q: "(2::rat) powi (floor_log2 a - int j + 1) = 2 powi (floor_log2 a + 1) / 2 ^ j"
    using power_int_diff [of "2::rat" "floor_log2 a + 1" "int j"] by (simp add: algebra_simps)
  show "a / 2 ^ j < 2 powi (floor_log2 a - int j + 1)"
    unfolding q using floor_log2_bounds [OF assms] by (simp add: divide_strict_right_mono)
qed

lemma is_double_dyadic:
  assumes m: "\<bar>m\<bar> < 2 ^ 53" and j: "j \<le> 1074"
  shows "is_double (of_int m / 2 ^ j)"
proof (cases "m = 0")
  case True
  then show ?thesis by (simp add: is_double_def)
next
  case False
  define a :: rat where "a = of_int \<bar>m\<bar>"
  have a1: "1 \<le> a" using False by (simp add: a_def)
  have a53: "a < 2 ^ 53"
  proof -
    have "a < of_int (2 ^ 53)" unfolding a_def using m by (simp only: of_int_less_iff)
    then show ?thesis by simp
  qed
  have abs: "\<bar>of_int m / 2 ^ j\<bar> = a / 2 ^ j" by (simp add: a_def)
  define f where "f = floor_log2 a"
  have f0: "0 \<le> f"
  proof -
    have "(2::rat) powi 0 < 2 powi (f + 1)"
      using floor_log2_bounds [of a] a1 by (simp add: f_def)
    then have "0 < f + 1" by (metis linorder_not_le one_le_numeral power_int_increasing)
    then show ?thesis by simp
  qed
  have f52: "f \<le> 52"
  proof -
    have "(2::rat) powi f < 2 powi 53"
      using floor_log2_bounds [of a] a1 a53 by (simp add: f_def)
    then have "f < 53" by (metis linorder_not_le one_le_numeral power_int_increasing)
    then show ?thesis by simp
  qed
  have fl: "floor_log2 (a / 2 ^ j) = f - int j"
    using floor_log2_dyadic [of a j] a1 by (simp add: f_def)
  define e where "e = max (f - int j) (- 1022)"
  have k: "0 \<le> int j + 52 - e" using f52 by (simp add: e_def)
  have k': "0 \<le> int j + 52 - e - int j" using f52 j by (auto simp: e_def)
  have "a / 2 ^ j / 2 powi (e - 52) = a * (2 powi (- int j) * 2 powi (52 - e))"
    by (simp add: power_int_minus field_simps power_int_diff)
  also have "2 powi (- int j) * (2::rat) powi (52 - e) = 2 powi (- int j + (52 - e))"
    by (rule power_int_add [symmetric]) simp
  also have "\<dots> = of_int (2 ^ nat (52 - e - int j))"
  proof -
    have "0 \<le> 52 - e - int j" using f52 j by (auto simp: e_def)
    then show ?thesis by (simp add: power_int_nonneg_exp algebra_simps)
  qed
  finally have "a / 2 ^ j / 2 powi (e - 52) = of_int (\<bar>m\<bar> * 2 ^ nat (52 - e - int j))"
    by (simp add: a_def)
  then have int: "of_int \<lfloor>a / 2 ^ j / 2 powi (e - 52)\<rfloor> = a / 2 ^ j / 2 powi (e - 52)"
    by (simp only: floor_of_int)
  have "a / 2 ^ j \<le> a" using a1 by (simp add: field_simps)
  also have "a < 2 powi 53" using a53 by simp
  also have "(2::rat) powi 53 \<le> 2 powi 1024" by (rule power_int_increasing) simp_all
  finally have lt: "a / 2 ^ j < 2 powi 1024" .
  show ?thesis
    unfolding is_double_def Let_def abs fl e_def [symmetric] using int lt by blast
qed

lemma round_double_dyadic:
  "\<bar>m\<bar> < 2 ^ 53 \<Longrightarrow> j \<le> 1074 \<Longrightarrow> round_double (of_int m / 2 ^ j) = Fin (of_int m / 2 ^ j)"
  by (rule round_double_exact) (rule is_double_dyadic)

lemma round_double_of_int: "\<bar>k\<bar> < 2 ^ 53 \<Longrightarrow> round_double (of_int k) = Fin (of_int k)"
  using round_double_dyadic [of k 0] by simp

lemma is_double_of_int: "\<bar>k\<bar> < 2 ^ 53 \<Longrightarrow> is_double (of_int k)"
  using is_double_dyadic [of k 0] by simp

lemma round_half_even_numeral: "round_half_even (numeral k) = numeral k"
  using round_half_even_of_int [of "numeral k"] by simp

lemma on_grid_of_int: "on_grid (Fin (of_int t))"
proof -
  have "(of_int t :: rat) / ulp_min = of_int t * 2 powi 1074"
    unfolding ulp_min_def by (simp only: power_int_minus divide_inverse inverse_inverse_eq)
  also have "\<dots> = of_int (t * 2 ^ 1074)" by simp
  finally show ?thesis unfolding on_grid_def jsnum.case by (simp only: floor_of_int)
qed

lemma on_grid_numeral: "on_grid (Fin (numeral k))"
  using on_grid_of_int [of "numeral k"] by simp

lemma on_grid_zero: "on_grid (Fin 0)"
  using on_grid_of_int [of 0] by simp

lemma on_grid_inf: "on_grid PInf" "on_grid NInf"
  by (simp_all add: on_grid_def)

lemma on_grid_not_NaN: "on_grid x \<Longrightarrow> x \<noteq> NaN"
  by (auto simp: on_grid_def)

text \<open>A number of magnitude \<open>2^1024\<close> or more rounds to an infinity.\<close>

lemma round_double_overflow:
  assumes "2 powi 1024 \<le> r"
  shows "round_double r = PInf"
proof -
  have rpos: "0 < r" using assms by (meson less_le_trans zero_less_numeral zero_less_power_int)
  define e where "e = floor_log2 r"
  have "(2::rat) powi 1024 < 2 powi (e + 1)"
    using floor_log2_bounds [OF rpos] assms by (simp add: e_def)
  then have e: "1024 \<le> e"
    using power_int_increasing [of "e + 1" 1024 "2::rat"] by (cases "1024 \<le> e") auto
  have "2 powi e \<le> r" using floor_log2_bounds [OF rpos] by (simp add: e_def)
  then have "of_int (2 ^ 52) \<le> r / 2 powi (e - 52)"
    by (simp add: power_int_diff field_simps)
  then have "2 ^ 52 \<le> round_half_even (r / 2 powi (e - 52))"
    by (rule round_half_even_ge)
  then have "of_int (2 ^ 52) * 2 powi (e - 52) \<le> of_int (round_half_even (r / 2 powi (e - 52))) * (2::rat) powi (e - 52)"
    by (intro mult_right_mono) (simp_all only: of_int_le_iff zero_le_power_int zero_le_numeral)
  then have "2 powi e \<le> of_int (round_half_even (r / 2 powi (e - 52))) * (2::rat) powi (e - 52)"
    by (simp add: power_int_diff)
  moreover have "(2::rat) powi 1024 \<le> 2 powi e" using e by (intro power_int_increasing) simp_all
  ultimately have v: "2 powi 1024 \<le> of_int (round_half_even (r / 2 powi (e - 52))) * (2::rat) powi (e - 52)"
    by (rule order_trans [rotated])
  have m: "max (floor_log2 r) (- 1022) = e" using e by (simp add: e_def)
  have a: "\<bar>r\<bar> = r" "r \<noteq> 0" using rpos by simp_all
  show ?thesis
    unfolding round_double_def Let_def a m using v rpos a(2) by (simp only: if_False if_True)
qed

section \<open>The sort is a stable sort by the key\<close>

lemma mset_sort_insert: "mset (sort_insert cmp x ys) = add_mset x (mset ys)"
  by (induction ys) auto

lemma mset_array_sort: "mset (array_sort cmp xs) = mset xs"
  by (induction xs) (auto simp: array_sort_def mset_sort_insert)

lemma set_sort_insert: "set (sort_insert cmp x ys) = insert x (set ys)"
  by (induction ys) auto

lemma set_array_sort: "set (array_sort cmp xs) = set xs"
  by (induction xs) (auto simp: array_sort_def set_sort_insert)

lemma sorted_sort_insert:
  assumes tot: "\<And>a b. a \<in> S \<Longrightarrow> b \<in> S \<Longrightarrow> above cmp a b \<Longrightarrow> \<not> above cmp b a"
    and tr: "\<And>a b c. a \<in> S \<Longrightarrow> b \<in> S \<Longrightarrow> c \<in> S \<Longrightarrow>
               \<not> above cmp a b \<Longrightarrow> \<not> above cmp b c \<Longrightarrow> \<not> above cmp a c"
    and "x \<in> S" "set ys \<subseteq> S" "sorted_wrt (\<lambda>a b. \<not> above cmp a b) ys"
  shows "sorted_wrt (\<lambda>a b. \<not> above cmp a b) (sort_insert cmp x ys)"
  using assms(3-)
proof (induction ys)
  case Nil
  then show ?case by simp
next
  case (Cons y ys)
  show ?case
  proof (cases "above cmp x y")
    case True
    have "\<not> above cmp y x" using tot [of x y] Cons.prems True by simp
    moreover have "sorted_wrt (\<lambda>a b. \<not> above cmp a b) (sort_insert cmp x ys)"
      using Cons by simp
    ultimately show ?thesis using True Cons.prems
      by (auto simp: above_def set_sort_insert)
  next
    case False
    have "\<not> above cmp x z" if "z \<in> set ys" for z
    proof -
      have "\<not> above cmp y z" using Cons.prems that by auto
      then show ?thesis using tr [of x y z] False Cons.prems that by auto
    qed
    then show ?thesis using False Cons.prems by (auto simp: above_def)
  qed
qed

lemma sorted_array_sort:
  assumes tot: "\<And>a b. a \<in> S \<Longrightarrow> b \<in> S \<Longrightarrow> above cmp a b \<Longrightarrow> \<not> above cmp b a"
    and tr: "\<And>a b c. a \<in> S \<Longrightarrow> b \<in> S \<Longrightarrow> c \<in> S \<Longrightarrow>
               \<not> above cmp a b \<Longrightarrow> \<not> above cmp b c \<Longrightarrow> \<not> above cmp a c"
    and "set xs \<subseteq> S"
  shows "sorted_wrt (\<lambda>a b. \<not> above cmp a b) (array_sort cmp xs)"
  using assms(3)
proof (induction xs)
  case Nil
  then show ?case by (simp add: array_sort_def)
next
  case (Cons x xs)
  have "sorted_wrt (\<lambda>a b. \<not> above cmp a b) (sort_insert cmp x (array_sort cmp xs))"
  proof (rule sorted_sort_insert [where S = S])
    show "\<And>a b. a \<in> S \<Longrightarrow> b \<in> S \<Longrightarrow> above cmp a b \<Longrightarrow> \<not> above cmp b a"
      by (rule tot)
    show "\<And>a b c. a \<in> S \<Longrightarrow> b \<in> S \<Longrightarrow> c \<in> S \<Longrightarrow>
               \<not> above cmp a b \<Longrightarrow> \<not> above cmp b c \<Longrightarrow> \<not> above cmp a c"
      by (rule tr)
  qed (use Cons in \<open>auto simp: set_array_sort\<close>)
  then show ?case by (simp add: array_sort_def)
qed

lemma js_less_asym: "js_less a b \<Longrightarrow> \<not> js_less b a"
  by (cases a; cases b) auto

lemma js_not_less_trans:
  "a \<noteq> NaN \<Longrightarrow> b \<noteq> NaN \<Longrightarrow> c \<noteq> NaN \<Longrightarrow> \<not> js_less b a \<Longrightarrow> \<not> js_less c b \<Longrightarrow> \<not> js_less c a"
  by (cases a; cases b; cases c) auto

lemma sorted_by_key_asc:
  assumes "\<forall>s \<in> set xs. on_grid (key s)"
  shows "sorted_wrt (\<lambda>a b. \<not> js_less (key b) (key a)) (array_sort (\<lambda>a b. js_sub (key a) (key b)) xs)"
proof -
  let ?cmp = "\<lambda>a b. js_sub (key a) (key b)"
  have ab: "above ?cmp a b \<longleftrightarrow> js_less (key b) (key a)" if "a \<in> set xs" "b \<in> set xs" for a b
    using that assms by (simp add: above_def pos_sub_iff)
  have "sorted_wrt (\<lambda>a b. \<not> above ?cmp a b) (array_sort ?cmp xs)"
  proof (rule sorted_array_sort [where S = "set xs"])
    show "\<And>a b. a \<in> set xs \<Longrightarrow> b \<in> set xs \<Longrightarrow> above ?cmp a b \<Longrightarrow> \<not> above ?cmp b a"
      using ab js_less_asym by blast
    show "\<And>a b c. a \<in> set xs \<Longrightarrow> b \<in> set xs \<Longrightarrow> c \<in> set xs \<Longrightarrow>
               \<not> above ?cmp a b \<Longrightarrow> \<not> above ?cmp b c \<Longrightarrow> \<not> above ?cmp a c"
      using ab js_not_less_trans assms on_grid_not_NaN by blast
  qed simp
  then show ?thesis
    by (rule sorted_wrt_mono_rel [rotated]) (simp add: ab set_array_sort)
qed

lemma sorted_by_key_desc:
  assumes "\<forall>s \<in> set xs. on_grid (key s)"
  shows "sorted_wrt (\<lambda>a b. \<not> js_less (key a) (key b)) (array_sort (\<lambda>a b. js_sub (key b) (key a)) xs)"
proof -
  let ?cmp = "\<lambda>a b. js_sub (key b) (key a)"
  have ab: "above ?cmp a b \<longleftrightarrow> js_less (key a) (key b)" if "a \<in> set xs" "b \<in> set xs" for a b
    using that assms by (simp add: above_def pos_sub_iff)
  have "sorted_wrt (\<lambda>a b. \<not> above ?cmp a b) (array_sort ?cmp xs)"
  proof (rule sorted_array_sort [where S = "set xs"])
    show "\<And>a b. a \<in> set xs \<Longrightarrow> b \<in> set xs \<Longrightarrow> above ?cmp a b \<Longrightarrow> \<not> above ?cmp b a"
      using ab js_less_asym by blast
    show "\<And>a b c. a \<in> set xs \<Longrightarrow> b \<in> set xs \<Longrightarrow> c \<in> set xs \<Longrightarrow>
               \<not> above ?cmp a b \<Longrightarrow> \<not> above ?cmp b c \<Longrightarrow> \<not> above ?cmp a c"
      using ab js_not_less_trans assms on_grid_not_NaN by blast
  qed simp
  then show ?thesis
    by (rule sorted_wrt_mono_rel [rotated]) (simp add: ab set_array_sort)
qed


section \<open>Stations without a price under the two price sorts\<close>

lemma getPrixMoyen_vide: "prix s = [] \<Longrightarrow> getPrixMoyen s = PInf"
  by (simp add: getPrixMoyen_def)

lemma mset_trierStations: "mset (trierStations h xs tri) = mset xs"
  by (simp add: trierStations_def mset_array_sort)

lemma is_finite_less_PInf: "is_finite x \<Longrightarrow> js_less x PInf"
  by (cases x) (auto simp: is_finite_def)

text \<open>An average that is not NaN is a rounded quotient or an infinity.\<close>

lemma js_div_on_grid: "js_div a (Fin b) \<noteq> NaN \<Longrightarrow> on_grid (js_div a (Fin b))"
  by (cases a) (auto simp: round_double_on_grid on_grid_inf)

lemma getPrixMoyen_on_grid: "getPrixMoyen s \<noteq> NaN \<Longrightarrow> on_grid (getPrixMoyen s)"
  by (auto simp: getPrixMoyen_def Let_def on_grid_inf js_div_on_grid)

text \<open>
  Claim C1, as the code has it. A station with an empty price list has the average
  \<open>Infinity\<close>. When no average of the collection is NaN, \<open>prix-croissant\<close> returns a
  permutation in which no station with a finite average comes after a station without a
  price (the stations without a price are last), and \<open>prix-decroissant\<close> returns a
  permutation in which no station without a price comes after a station with a finite
  average (the stations without a price are first).
\<close>

theorem C1_prix_vide_tri:
  assumes "\<forall>s \<in> set xs. getPrixMoyen s \<noteq> NaN"
  shows "getPrixMoyen (s\<lparr>prix := []\<rparr>) = PInf \<and>
         mset (trierStations h xs (js ''prix-croissant'')) = mset xs \<and>
         sorted_wrt (\<lambda>a b. \<not> (prix a = [] \<and> is_finite (getPrixMoyen b)))
           (trierStations h xs (js ''prix-croissant'')) \<and>
         mset (trierStations h xs (js ''prix-decroissant'')) = mset xs \<and>
         sorted_wrt (\<lambda>a b. \<not> (is_finite (getPrixMoyen a) \<and> prix b = []))
           (trierStations h xs (js ''prix-decroissant''))"
proof -
  have asc: "trierStations h xs (js ''prix-croissant'')
               = array_sort (\<lambda>a b. js_sub (getPrixMoyen a) (getPrixMoyen b)) xs"
    by (simp add: trierStations_def js_def)
  have desc: "trierStations h xs (js ''prix-decroissant'')
               = array_sort (\<lambda>a b. js_sub (getPrixMoyen b) (getPrixMoyen a)) xs"
    by (simp add: trierStations_def js_def)
  have g: "\<forall>s \<in> set xs. on_grid (getPrixMoyen s)"
    using assms getPrixMoyen_on_grid by blast
  have 1: "sorted_wrt (\<lambda>a b. \<not> (prix a = [] \<and> is_finite (getPrixMoyen b)))
             (trierStations h xs (js ''prix-croissant''))"
    unfolding asc
    by (rule sorted_wrt_mono_rel [OF _ sorted_by_key_asc [OF g]])
       (auto simp: getPrixMoyen_vide dest: is_finite_less_PInf)
  have 2: "sorted_wrt (\<lambda>a b. \<not> (is_finite (getPrixMoyen a) \<and> prix b = []))
             (trierStations h xs (js ''prix-decroissant''))"
    unfolding desc
    by (rule sorted_wrt_mono_rel [OF _ sorted_by_key_desc [OF g]])
       (auto simp: getPrixMoyen_vide dest: is_finite_less_PInf)
  show ?thesis using 1 2 by (simp add: mset_trierStations getPrixMoyen_vide)
qed

text \<open>The average of the prices 1.85 and 1.72 is the double 1.7850000000000001: the sum
  is a tie between two doubles and goes to the even one, 3.5700000000000003.\<close>

lemma round_prix_A: "round_double (16077850669712671 / 4503599627370496) = Fin (502432833428521 / 140737488355328)"
proof -
  have rh: "round_half_even ((16077850669712671 / 4503599627370496) / 2 powi (1 - 52)) = 8038925334856336"
    using round_half_even_tie [of "(16077850669712671 / 4503599627370496) / 2 powi (1 - 52)" 8038925334856335] by simp
  show ?thesis
    using round_double_eval [of "16077850669712671 / 4503599627370496" "1" 8038925334856336, OF _ _ _ _ rh] by simp
qed

lemma getPrixMoyen_A: "getPrixMoyen station_A = Fin (502432833428521 / 281474976710656)"
proof -
  have 1: "round_double (4165829655317709 / 2251799813685248) = Fin (4165829655317709 / 2251799813685248)"
    using round_double_dyadic [of 4165829655317709 51] by simp
  have 3: "round_double (502432833428521 / 281474976710656) = Fin (502432833428521 / 281474976710656)"
    using round_double_dyadic [of 502432833428521 48] by simp
  show ?thesis
    by (simp add: getPrixMoyen_def station_A_def js_or_def prix_1_85_def prix_1_72_def 1 round_prix_A 3)
qed

lemma getPrixMoyen_B: "getPrixMoyen station_B = PInf"
  by (simp add: getPrixMoyen_def station_B_def)

text \<open>The theorem at the two stations of the scenario of the specification.\<close>

theorem C1_prix_vide_tri_witness:
  "getPrixMoyen station_A \<noteq> NaN \<and> getPrixMoyen station_B \<noteq> NaN \<and>
   sorted_wrt (\<lambda>a b. \<not> (prix a = [] \<and> is_finite (getPrixMoyen b)))
     (trierStations host_utc [station_B, station_A] (js ''prix-croissant'')) \<and>
   sorted_wrt (\<lambda>a b. \<not> (is_finite (getPrixMoyen a) \<and> prix b = []))
     (trierStations host_utc [station_B, station_A] (js ''prix-decroissant''))"
proof -
  have h: "\<forall>s \<in> set [station_B, station_A]. getPrixMoyen s \<noteq> NaN"
    by (simp add: getPrixMoyen_A getPrixMoyen_B)
  show ?thesis
    using C1_prix_vide_tri [OF h, of station_A host_utc]
    by (simp add: getPrixMoyen_A getPrixMoyen_B)
qed

text \<open>Claim C1 as stated fails under \<open>prix-decroissant\<close>: the station without a price is
  placed first, before the station whose average is 1.7850000000000001.\<close>

theorem C1_decroissant_counterexample:
  "prix station_B = [] \<and> getPrixMoyen station_A = Fin (502432833428521 / 281474976710656) \<and>
   trierStations host_utc [station_A, station_B] (js ''prix-decroissant'') = [station_B, station_A]"
  by (simp add: trierStations_def array_sort_def getPrixMoyen_A getPrixMoyen_B js_def js_sub_def)
    (simp add: station_B_def)


section \<open>The sort key\<close>

lemma js_less_not_NaN: "js_less a b \<Longrightarrow> b \<noteq> NaN"
  by (cases a; cases b) auto

lemma foldl_latest_not_NaN:
  "acc \<noteq> NaN \<Longrightarrow>
   foldl (\<lambda>latestTimestamp p.
            let timestamp = parseDisplayDate h (maj p)
            in if js_less latestTimestamp timestamp then timestamp else latestTimestamp) acc ps \<noteq> NaN"
  by (induction ps arbitrary: acc) (auto simp: Let_def dest: js_less_not_NaN)

lemma getLatestUpdateTimestamp_not_NaN: "getLatestUpdateTimestamp h s \<noteq> NaN"
  by (simp add: getLatestUpdateTimestamp_def foldl_latest_not_NaN)

text \<open>A timestamp is a whole number of milliseconds.\<close>

lemma parseDisplayDate_cases:
  "parseDisplayDate h v = NaN \<or> (\<exists>t. parseDisplayDate h v = Fin (of_int t))"
proof -
  have c: "TimeClip u = NaN \<or> (\<exists>t. TimeClip u = Fin (of_int t))" for u
    by (auto simp: TimeClip_def)
  have "new_Date h y m d hh mi = NaN \<or> (\<exists>t. new_Date h y m d hh mi = Fin (of_int t))" for y m d hh mi
    unfolding new_Date_def Let_def by (rule c)
  moreover have "\<exists>t. (Fin 0 :: jsnum) = Fin (of_int t)"
    by (rule exI [of _ 0]) simp
  ultimately show ?thesis
    by (auto simp: parseDisplayDate_def split: sum.splits option.splits prod.splits)
qed

lemma foldl_latest_int:
  "\<exists>t. foldl (\<lambda>latestTimestamp p.
            let timestamp = parseDisplayDate h (maj p)
            in if js_less latestTimestamp timestamp then timestamp else latestTimestamp)
          (Fin (of_int a)) ps = Fin (of_int t)"
proof (induction ps arbitrary: a)
  case Nil
  then show ?case by simp
next
  case (Cons p ps)
  show ?case
    using parseDisplayDate_cases [of h "maj p"] Cons by (auto simp: Let_def)
qed

lemma getLatestUpdateTimestamp_on_grid: "on_grid (getLatestUpdateTimestamp h s)"
proof -
  have "\<exists>t. getLatestUpdateTimestamp h s = Fin (of_int t)"
    using foldl_latest_int [of h 0 "prix s"]
    by (cases "prix s = []") (auto simp: getLatestUpdateTimestamp_def intro: exI [of _ 0])
  then show ?thesis using on_grid_of_int by auto
qed

text \<open>
  Claim C2, as the code has it. The empty key, and the key that \<open>appliquerFiltres\<close> reads
  from a sort control that is absent or empty, sort as \<open>date-maj\<close>: the result is a
  permutation in which no station comes before one with a later latest update. A key that
  is neither empty nor one of the five of the enumeration leaves the collection in the
  order it had.
\<close>

theorem C2_cle_de_tri:
  "trierStations h xs [] = trierStations h xs (js ''date-maj'') \<and>
   trierStations h xs (str_or None (js ''date-maj'')) = trierStations h xs (js ''date-maj'') \<and>
   trierStations h xs (str_or (Some []) (js ''date-maj'')) = trierStations h xs (js ''date-maj'') \<and>
   mset (trierStations h xs (js ''date-maj'')) = mset xs \<and>
   sorted_wrt (\<lambda>a b. \<not> js_less (getLatestUpdateTimestamp h a) (getLatestUpdateTimestamp h b))
     (trierStations h xs (js ''date-maj'')) \<and>
   (tri \<noteq> js ''date-maj'' \<and> tri \<noteq> [] \<and> tri \<noteq> js ''prix-croissant'' \<and>
    tri \<noteq> js ''prix-decroissant'' \<and> tri \<noteq> js ''ville-az'' \<and> tri \<noteq> js ''marque-az''
      \<longrightarrow> trierStations h xs tri = xs)"
proof -
  have d: "trierStations h xs (js ''date-maj'')
             = array_sort (\<lambda>a b. js_sub (getLatestUpdateTimestamp h b) (getLatestUpdateTimestamp h a)) xs"
    by (simp add: trierStations_def)
  have s: "sorted_wrt (\<lambda>a b. \<not> js_less (getLatestUpdateTimestamp h a) (getLatestUpdateTimestamp h b))
             (trierStations h xs (js ''date-maj''))"
    unfolding d by (rule sorted_by_key_desc) (simp add: getLatestUpdateTimestamp_on_grid)
  show ?thesis using s
    by (simp add: mset_trierStations str_or_def) (simp add: trierStations_def)
qed

text \<open>The theorem at the key \<open>foo\<close>.\<close>

theorem C2_cle_de_tri_witness:
  "trierStations host_utc [station_C, station_A] (js ''foo'') = [station_C, station_A]"
proof -
  have "js ''foo'' \<noteq> js ''date-maj'' \<and> js ''foo'' \<noteq> [] \<and> js ''foo'' \<noteq> js ''prix-croissant'' \<and>
    js ''foo'' \<noteq> js ''prix-decroissant'' \<and> js ''foo'' \<noteq> js ''ville-az'' \<and> js ''foo'' \<noteq> js ''marque-az''"
    by (simp add: js_def)
  then show ?thesis
    using C2_cle_de_tri [of host_utc "[station_C, station_A]" "js ''foo''"] by blast
qed

text \<open>The two timestamps of the examples, in a browser in UTC.\<close>

lemma date_match_here_2025:
  "date_match_here (js ''15/01/2025 '' @ [0xE0] @ js '' 08:00'') = Some (15, 1, 2025, 8, 0)"
  by (simp add: js_def date_match_here_def take_digits_def take_lit_def is_digit_def
      digits_val_def digit_val_def)

lemma date_match_2025:
  "date_match (js ''15/01/2025 '' @ [0xE0] @ js '' 08:00'') = Some (15, 1, 2025, 8, 0)"
  using date_match_here_2025 by (simp add: js_def)

lemma date_match_here_2024:
  "date_match_here (js ''01/03/2024 '' @ [0xE0] @ js '' 00:00'') = Some (1, 3, 2024, 0, 0)"
  by (simp add: js_def date_match_here_def take_digits_def take_lit_def is_digit_def
      digits_val_def digit_val_def)

lemma date_match_2024:
  "date_match (js ''01/03/2024 '' @ [0xE0] @ js '' 00:00'') = Some (1, 3, 2024, 0, 0)"
  using date_match_here_2024 by (simp add: js_def)

lemma new_Date_2025: "new_Date host_utc 2025 0 15 8 0 = Fin 1736928000000"
  by (simp add: new_Date_def host_utc_def MakeDate_def MakeDay_def MakeTime_def TimeClip_def
      DayFromYear_def InLeapYear_def month_start_def)

lemma new_Date_2024: "new_Date host_utc 2024 2 1 0 0 = Fin 1709251200000"
  by (simp add: new_Date_def host_utc_def MakeDate_def MakeDay_def MakeTime_def TimeClip_def
      DayFromYear_def InLeapYear_def month_start_def)

lemma parseDisplayDate_2025: "parseDisplayDate host_utc maj_2025 = Fin 1736928000000"
  using date_match_2025 new_Date_2025
  by (simp add: parseDisplayDate_def maj_2025_def String_match_def non_renseigne_def js_def)

lemma parseDisplayDate_2024: "parseDisplayDate host_utc maj_2024 = Fin 1709251200000"
  using date_match_2024 new_Date_2024
  by (simp add: parseDisplayDate_def maj_2024_def String_match_def non_renseigne_def js_def)

lemma timestamp_A: "getLatestUpdateTimestamp host_utc station_A = Fin 1736928000000"
  by (simp add: getLatestUpdateTimestamp_def station_A_def parseDisplayDate_2025)

lemma timestamp_C: "getLatestUpdateTimestamp host_utc station_C = Fin 1709251200000"
  by (simp add: getLatestUpdateTimestamp_def station_C_def parseDisplayDate_2024)

lemma station_A_neq_C: "station_A \<noteq> station_C"
  by (simp add: station_A_def station_C_def)

text \<open>Claim C2 as stated fails at the key \<open>foo\<close>: the collection keeps its order, in which
  the station updated in 2024 is before the one updated in 2025, while \<open>date-maj\<close> puts the
  latter first.\<close>

theorem C2_cle_inconnue_counterexample:
  "trierStations host_utc [station_C, station_A] (js ''foo'') = [station_C, station_A] \<and>
   trierStations host_utc [station_C, station_A] (js ''date-maj'') = [station_A, station_C] \<and>
   trierStations host_utc [station_C, station_A] (js ''foo'')
     \<noteq> trierStations host_utc [station_C, station_A] (js ''date-maj'')"
proof -
  have 1: "trierStations host_utc [station_C, station_A] (js ''foo'') = [station_C, station_A]"
    by (simp add: trierStations_def js_def)
  have 2: "trierStations host_utc [station_C, station_A] (js ''date-maj'') = [station_A, station_C]"
    by (simp add: trierStations_def array_sort_def timestamp_A timestamp_C pos_sub_iff on_grid_numeral)
  show ?thesis using 1 2 station_A_neq_C by simp
qed

section \<open>The average price\<close>

lemma parseFloat_zero_if_falsy:
  "parseFloat (js_or (valeur (zero_if_falsy p)) (JNum (Fin 0)))
     = parseFloat (js_or (valeur p) (JNum (Fin 0)))"
  by (simp add: zero_if_falsy_def js_or_def)

lemma parseFloat_js_or:
  "parseFloat (js_or v (JNum (Fin 0))) = (if truthy v then parseFloat v else Fin 0)"
  by (simp add: js_or_def)

lemma js_add_not_NaN: "acc \<noteq> NaN \<Longrightarrow> js_add acc (Fin r) \<noteq> NaN"
  by (cases acc) simp_all

lemma foldl_total_not_NaN:
  "acc \<noteq> NaN \<Longrightarrow>
   \<forall>p \<in> set ps. \<not> truthy (valeur p) \<or> (\<exists>r. valeur p = JNum (Fin r)) \<Longrightarrow>
   foldl (\<lambda>sum p. js_add sum (parseFloat (js_or (valeur p) (JNum (Fin 0))))) acc ps \<noteq> NaN"
proof (induction ps arbitrary: acc)
  case Nil
  then show ?case by simp
next
  case (Cons p ps)
  have "\<exists>r. parseFloat (js_or (valeur p) (JNum (Fin 0))) = Fin r"
    using Cons.prems(2) by (auto simp: js_or_def)
  then have "js_add acc (parseFloat (js_or (valeur p) (JNum (Fin 0)))) \<noteq> NaN"
    using Cons.prems(1) js_add_not_NaN by auto
  then show ?case using Cons by simp
qed

lemma js_add_NaN_right: "js_add acc NaN = NaN"
  by (cases acc) simp_all

lemma foldl_total_NaN:
  "acc = NaN \<or> (\<exists>p \<in> set ps. parseFloat (js_or (valeur p) (JNum (Fin 0))) = NaN) \<Longrightarrow>
   foldl (\<lambda>sum p. js_add sum (parseFloat (js_or (valeur p) (JNum (Fin 0))))) acc ps = NaN"
proof (induction ps arbitrary: acc)
  case Nil
  then show ?case by simp
next
  case (Cons p ps)
  have "js_add acc (parseFloat (js_or (valeur p) (JNum (Fin 0)))) = NaN
          \<or> (\<exists>q \<in> set ps. parseFloat (js_or (valeur q) (JNum (Fin 0))) = NaN)"
    using Cons.prems by (auto simp: js_add_NaN_right)
  then show ?case using Cons.IH by simp
qed

lemma js_div_length_NaN: "0 < n \<Longrightarrow> js_div a (Fin (of_nat n)) = NaN \<longleftrightarrow> a = NaN"
  by (cases a) simp_all

text \<open>
  Claim C3, as the code has it. \<open>getPrixMoyen\<close> treats a falsy price value (absent,
  \<open>null\<close>, \<open>false\<close>, 0, NaN, the empty string) as the number 0: its result is the one for the
  same price list with every such value replaced by 0. For a non-empty list it is the sum
  from the left, in double arithmetic, of 0 for a falsy value and of \<open>parseFloat\<close> of a
  truthy one, divided by the number of entries, so every entry counts in the denominator.
  When every value is falsy or a finite number the result is never NaN (it is finite, or
  an infinity when the sum overflows); when some truthy value has no numeric prefix the
  result is NaN. The function has no failing branch.
\<close>

theorem C3_moyenne_valeurs:
  "getPrixMoyen s = getPrixMoyen (s\<lparr>prix := map zero_if_falsy (prix s)\<rparr>) \<and>
   (prix s \<noteq> [] \<longrightarrow>
      getPrixMoyen s
        = js_div (foldl js_add (Fin 0)
                    (map (\<lambda>p. if truthy (valeur p) then parseFloat (valeur p) else Fin 0) (prix s)))
                 (Fin (of_nat (length (prix s))))) \<and>
   ((\<forall>p \<in> set (prix s). \<not> truthy (valeur p) \<or> (\<exists>r. valeur p = JNum (Fin r)))
      \<longrightarrow> getPrixMoyen s \<noteq> NaN) \<and>
   ((\<exists>p \<in> set (prix s). truthy (valeur p) \<and> parseFloat (valeur p) = NaN)
      \<longrightarrow> getPrixMoyen s = NaN)"
proof -
  have 1: "getPrixMoyen s = getPrixMoyen (s\<lparr>prix := map zero_if_falsy (prix s)\<rparr>)"
    by (simp add: getPrixMoyen_def foldl_map parseFloat_zero_if_falsy)
  have 2: "getPrixMoyen s
        = js_div (foldl js_add (Fin 0)
                    (map (\<lambda>p. if truthy (valeur p) then parseFloat (valeur p) else Fin 0) (prix s)))
                 (Fin (of_nat (length (prix s))))" if "prix s \<noteq> []"
    using that by (simp add: getPrixMoyen_def foldl_map parseFloat_js_or)
  have 3: "getPrixMoyen s \<noteq> NaN"
    if "\<forall>p \<in> set (prix s). \<not> truthy (valeur p) \<or> (\<exists>r. valeur p = JNum (Fin r))"
  proof (cases "prix s = []")
    case True
    then show ?thesis by (simp add: getPrixMoyen_def)
  next
    case False
    then show ?thesis
      using foldl_total_not_NaN [OF _ that, of "Fin 0"]
      by (simp add: getPrixMoyen_def js_div_length_NaN)
  qed
  have 4: "getPrixMoyen s = NaN"
    if "\<exists>p \<in> set (prix s). truthy (valeur p) \<and> parseFloat (valeur p) = NaN"
  proof -
    have ne: "prix s \<noteq> []" using that by auto
    have "\<exists>p \<in> set (prix s). parseFloat (js_or (valeur p) (JNum (Fin 0))) = NaN"
      using that by (auto simp: js_or_def)
    then have "foldl (\<lambda>sum p. js_add sum (parseFloat (js_or (valeur p) (JNum (Fin 0))))) (Fin 0) (prix s) = NaN"
      by (intro foldl_total_NaN) simp
    then show ?thesis using ne by (simp add: getPrixMoyen_def)
  qed
  show ?thesis using 1 2 3 4 by blast
qed

text \<open>The theorem at a station with the prices \<open>null\<close> and 2, where the mean is 1, and at
  a station with the price \<open>abc\<close>, where it is NaN.\<close>

theorem C3_moyenne_valeurs_witness:
  "map valeur (prix station_prix_absent) = [JNull, JNum (Fin 2)] \<and>
   getPrixMoyen station_prix_absent = Fin 1 \<and>
   getPrixMoyen (station_prix_absent\<lparr>prix := map zero_if_falsy (prix station_prix_absent)\<rparr>) = Fin 1 \<and>
   getPrixMoyen station_prix_absent \<noteq> NaN \<and>
   map valeur (prix station_prix_texte) = [JStr (js ''abc'')] \<and>
   truthy (JStr (js ''abc'')) \<and> parseFloat (JStr (js ''abc'')) = NaN \<and>
   getPrixMoyen station_prix_texte = NaN"
proof -
  have m: "map valeur (prix station_prix_absent) = [JNull, JNum (Fin 2)]"
    by (simp add: station_prix_absent_def)
  have ne: "prix station_prix_absent \<noteq> []"
    by (simp add: station_prix_absent_def)
  have r: "round_double 0 = Fin 0" "round_double 2 = Fin 2" "round_double 1 = Fin 1"
    using round_double_of_int [of 0] round_double_of_int [of 2] round_double_of_int [of 1] by simp_all
  have "js_div (foldl js_add (Fin 0)
                    (map (\<lambda>p. if truthy (valeur p) then parseFloat (valeur p) else Fin 0)
                       (prix station_prix_absent)))
                 (Fin (of_nat (length (prix station_prix_absent)))) = Fin 1"
    by (simp add: station_prix_absent_def r)
  moreover have e1: "getPrixMoyen station_prix_absent
          = getPrixMoyen (station_prix_absent\<lparr>prix := map zero_if_falsy (prix station_prix_absent)\<rparr>)"
    and e2: "getPrixMoyen station_prix_absent
          = js_div (foldl js_add (Fin 0)
                    (map (\<lambda>p. if truthy (valeur p) then parseFloat (valeur p) else Fin 0)
                       (prix station_prix_absent)))
                 (Fin (of_nat (length (prix station_prix_absent))))"
    using C3_moyenne_valeurs [of station_prix_absent] ne by blast+
  ultimately have v: "getPrixMoyen station_prix_absent = Fin 1" by (simp only:)
  then have z: "getPrixMoyen (station_prix_absent\<lparr>prix := map zero_if_falsy (prix station_prix_absent)\<rparr>) = Fin 1"
    using e1 by (simp only:)
  have "\<forall>p \<in> set (prix station_prix_absent). \<not> truthy (valeur p) \<or> (\<exists>r. valeur p = JNum (Fin r))"
    by (simp add: station_prix_absent_def)
  then have n: "getPrixMoyen station_prix_absent \<noteq> NaN"
    using C3_moyenne_valeurs [of station_prix_absent] by blast
  have m': "map valeur (prix station_prix_texte) = [JStr (js ''abc'')]"
    by (simp add: station_prix_texte_def)
  have a: "truthy (JStr (js ''abc''))" "parseFloat (JStr (js ''abc'')) = NaN"
    by (simp_all add: js_def parseFloat_str_def parse_unsigned_def is_space_def is_digit_def)
  have "\<exists>p \<in> set (prix station_prix_texte). truthy (valeur p) \<and> parseFloat (valeur p) = NaN"
    using a by (simp add: station_prix_texte_def)
  then have x: "getPrixMoyen station_prix_texte = NaN"
    using C3_moyenne_valeurs [of station_prix_texte] by blast
  show ?thesis using m v z n m' a x by blast
qed

text \<open>Claim C3 as stated fails at a price that is the string \<open>abc\<close>: it is truthy, so
  \<open>|| 0\<close> keeps it, \<open>parseFloat\<close> makes it NaN, and so is the mean.\<close>

theorem C3_texte_counterexample:
  "getPrixMoyen station_prix_texte = NaN"
  by (simp add: getPrixMoyen_def station_prix_texte_def js_or_def js_def parseFloat_str_def
      parse_unsigned_def is_space_def is_digit_def)

text \<open>Two prices of \<open>2^1023\<close> are finite numbers whose sum overflows: the mean is
  \<open>Infinity\<close>, which is not NaN.\<close>

lemma getPrixMoyen_enorme: "getPrixMoyen station_prix_enorme = PInf"
proof -
  have 1: "round_double (2 ^ 1023) = Fin (2 ^ 1023)"
  proof -
    have rh: "round_half_even (2 ^ 1023 / 2 powi (1023 - 52)) = 2 ^ 52"
      using round_half_even_of_int [of "2 ^ 52"] by (simp add: power_int_diff)
    show ?thesis
      using round_double_eval [of "2 ^ 1023" 1023 "2 ^ 52", OF _ _ _ _ rh] by (simp add: power_int_diff)
  qed
  have 2: "round_double (2 ^ 1023 + 2 ^ 1023) = PInf"
    by (rule round_double_overflow) simp
  show ?thesis
    using 1 2 by (simp add: getPrixMoyen_def station_prix_enorme_def js_or_def)
qed

section \<open>The example prices\<close>

text \<open>The prices of the first example station are the doubles that \<open>parseFloat\<close> makes of
  the decimal texts 1.85 and 1.72.\<close>

lemma round_1_85: "round_double (37 / 20) = Fin (4165829655317709 / 2251799813685248)"
proof -
  have rh: "round_half_even ((37 / 20) / 2 powi (0 - 52)) = 8331659310635418"
    by (rule round_half_even_eqI) simp
  show ?thesis
    using round_double_eval [of "37 / 20" "0" 8331659310635418, OF _ _ _ _ rh] by simp
qed

lemma round_1_72: "round_double (43 / 25) = Fin (7746191359077253 / 4503599627370496)"
proof -
  have rh: "round_half_even ((43 / 25) / 2 powi (0 - 52)) = 7746191359077253"
    by (rule round_half_even_eqI) simp
  show ?thesis
    using round_double_eval [of "43 / 25" "0" 7746191359077253, OF _ _ _ _ rh] by simp
qed

lemma parseFloat_1_85: "parseFloat (JStr (js ''1.85'')) = prix_1_85"
  by (simp add: js_def parseFloat_str_def parse_unsigned_def is_space_def is_digit_def
      digits_val_def digit_val_def pow10_def parse_exponent_def round_1_85 prix_1_85_def)

lemma parseFloat_1_72: "parseFloat (JStr (js ''1.72'')) = prix_1_72"
  by (simp add: js_def parseFloat_str_def parse_unsigned_def is_space_def is_digit_def
      digits_val_def digit_val_def pow10_def parse_exponent_def round_1_72 prix_1_72_def)

text \<open>A price that is the string \<open>2\<close> is parsed: with \<open>null\<close> beside it the mean is 1.\<close>

lemma getPrixMoyen_chaine: "getPrixMoyen station_prix_chaine = Fin 1"
proof -
  have r: "round_double 0 = Fin 0" "round_double 2 = Fin 2" "round_double 1 = Fin 1"
    using round_double_of_int [of 0] round_double_of_int [of 2] round_double_of_int [of 1]
    by simp_all
  have "parseFloat (JStr (js ''2'')) = Fin 2"
    by (simp add: js_def parseFloat_str_def parse_unsigned_def is_space_def is_digit_def
        digits_val_def digit_val_def pow10_def parse_exponent_def r)
  then show ?thesis
    by (simp add: getPrixMoyen_def station_prix_chaine_def js_or_def r js_def)
qed

section \<open>The filters commute\<close>

lemma filtrer_type_filter: "\<exists>P. \<forall>xs. filtrer_type t xs = filter P xs"
proof (cases "t = js ''autoroute'' \<or> t = js ''route''")
  case True
  then show ?thesis by (auto simp: filtrer_type_def js_def)
next
  case False
  then have "\<forall>xs. filtrer_type t xs = filter (\<lambda>s. True) xs"
    by (simp add: filtrer_type_def)
  then show ?thesis by blast
qed

lemma filtrer_horaires_filter: "\<exists>P. \<forall>xs. filtrer_horaires hs xs = filter P xs"
proof (cases "hs = js ''24h'' \<or> hs = js ''ouvert''")
  case True
  then show ?thesis by (auto simp: filtrer_horaires_def js_def)
next
  case False
  then have "\<forall>xs. filtrer_horaires hs xs = filter (\<lambda>s. True) xs"
    by (simp add: filtrer_horaires_def)
  then show ?thesis by blast
qed

lemma filtrer_carburants_filter: "\<exists>P. \<forall>xs. filtrer_carburants fs xs = filter P xs"
proof (cases "fs = []")
  case True
  then have "\<forall>xs. filtrer_carburants fs xs = filter (\<lambda>s. True) xs"
    by (simp add: filtrer_carburants_def)
  then show ?thesis by blast
next
  case False
  then show ?thesis by (auto simp: filtrer_carburants_def)
qed

text \<open>
  Claim C5. The source applies the type filter, then the hours filter, then the fuel
  filter. Each of the five other orders of the three filters gives the same list of
  stations, for every collection and every selection; with no type, no hours and no fuel
  selected the three filters keep every station.
\<close>

theorem C5_filtres_commutent:
  "filtrer_carburants fs (filtrer_type t (filtrer_horaires hs xs))
     = filtrer_carburants fs (filtrer_horaires hs (filtrer_type t xs)) \<and>
   filtrer_horaires hs (filtrer_carburants fs (filtrer_type t xs))
     = filtrer_carburants fs (filtrer_horaires hs (filtrer_type t xs)) \<and>
   filtrer_horaires hs (filtrer_type t (filtrer_carburants fs xs))
     = filtrer_carburants fs (filtrer_horaires hs (filtrer_type t xs)) \<and>
   filtrer_type t (filtrer_horaires hs (filtrer_carburants fs xs))
     = filtrer_carburants fs (filtrer_horaires hs (filtrer_type t xs)) \<and>
   filtrer_type t (filtrer_carburants fs (filtrer_horaires hs xs))
     = filtrer_carburants fs (filtrer_horaires hs (filtrer_type t xs)) \<and>
   filtrer_carburants [] (filtrer_horaires (str_or None []) (filtrer_type (str_or None []) xs)) = xs \<and>
   filtrer_carburants [] (filtrer_horaires (str_or (Some []) []) (filtrer_type (str_or (Some []) []) xs)) = xs"
proof -
  obtain P where P: "\<And>ys. filtrer_type t ys = filter P ys"
    using filtrer_type_filter by blast
  obtain Q where Q: "\<And>ys. filtrer_horaires hs ys = filter Q ys"
    using filtrer_horaires_filter by blast
  obtain R where R: "\<And>ys. filtrer_carburants fs ys = filter R ys"
    using filtrer_carburants_filter by blast
  have id: "filtrer_carburants [] (filtrer_horaires [] (filtrer_type [] xs)) = xs"
    by (simp add: filtrer_carburants_def filtrer_horaires_def filtrer_type_def js_def)
  show ?thesis
    unfolding P Q R using id
    by (simp add: str_or_def conj_commute conj_left_commute)
qed

text \<open>The theorem at the three example stations with \<open>route\<close>, \<open>ouvert\<close> and E10 selected:
  the fuel filter applied first gives what the order of the source gives, the one station
  of type Route, with known hours, that sells E10.\<close>

theorem C5_filtres_commutent_witness:
  "filtrer_type (js ''route'') (filtrer_horaires (js ''ouvert'')
     (filtrer_carburants [js ''E10''] [station_A, station_B, station_C])) = [station_C]"
proof -
  have "filtrer_carburants [js ''E10''] (filtrer_horaires (js ''ouvert'')
          (filtrer_type (js ''route'') [station_A, station_B, station_C])) = [station_C]"
    by (simp add: filtrer_type_def filtrer_horaires_def filtrer_carburants_def js_def
        station_A_def station_B_def station_C_def)
  then show ?thesis
    using C5_filtres_commutent [of "[js ''E10'']" "js ''route''" "js ''ouvert''"
        "[station_A, station_B, station_C]"]
    by simp
qed

section \<open>A matched timestamp is an instant\<close>

lemma digit_val_le: "is_digit c \<Longrightarrow> digit_val c \<le> 9"
  unfolding is_digit_def digit_val_def word_le_nat_alt by simp arith

lemma foldl_digits_bound:
  "list_all is_digit ds \<Longrightarrow>
   Suc (foldl (\<lambda>n c. 10 * n + digit_val c) acc ds) \<le> Suc acc * 10 ^ length ds"
proof (induction ds arbitrary: acc)
  case Nil
  then show ?case by simp
next
  case (Cons c cs)
  have "Suc (foldl (\<lambda>n c. 10 * n + digit_val c) (10 * acc + digit_val c) cs)
          \<le> Suc (10 * acc + digit_val c) * 10 ^ length cs"
    using Cons by simp
  also have "\<dots> \<le> (10 * Suc acc) * 10 ^ length cs"
    using digit_val_le [of c] Cons.prems by (intro mult_le_mono1) simp
  finally show ?case by (simp add: algebra_simps)
qed

lemma digits_val_bound: "list_all is_digit ds \<Longrightarrow> digits_val ds < 10 ^ length ds"
  using foldl_digits_bound [of ds 0] by (simp add: digits_val_def)

lemma take_digits_bound: "take_digits n s = Some (v, r) \<Longrightarrow> v < 10 ^ n"
  using digits_val_bound [of "take n s"]
  by (auto simp: take_digits_def split: if_splits)

lemma date_match_here_bounds:
  assumes "date_match_here s = Some (day, month, year, hour, minute)"
  shows "day < 100 \<and> month < 100 \<and> year < 10000 \<and> hour < 100 \<and> minute < 100"
proof -
  from assms obtain s1 s2 s3 s4 s5 s6 s7 s8 s9 where
    "take_digits 2 s = Some (day, s1)" "take_digits 2 s2 = Some (month, s3)"
    "take_digits 4 s4 = Some (year, s5)" "take_digits 2 s6 = Some (hour, s7)"
    "take_digits 2 s8 = Some (minute, s9)"
    by (auto simp: date_match_here_def split: Option.bind_splits)
  then show ?thesis
    using take_digits_bound [of 2 s day s1] take_digits_bound [of 2 s2 month s3]
      take_digits_bound [of 4 s4 year s5] take_digits_bound [of 2 s6 hour s7]
      take_digits_bound [of 2 s8 minute s9]
    by simp
qed

lemma date_match_bounds:
  "date_match s = Some (day, month, year, hour, minute) \<Longrightarrow>
   day < 100 \<and> month < 100 \<and> year < 10000 \<and> hour < 100 \<and> minute < 100"
proof (induction s)
  case Nil
  then show ?case by simp
next
  case (Cons c cs)
  show ?case
  proof (cases "date_match_here (c # cs)")
    case None
    then show ?thesis using Cons by simp
  next
    case (Some m)
    then show ?thesis using Cons.prems date_match_here_bounds [of "c # cs"] by simp
  qed
qed

lemma months_upt: "[0..<12] = [0, 1, 2, 3, 4, 5, 6, 7, 8, 9, 10, 11 :: nat]"
  by code_simp

lemma month_start_bounds:
  assumes "0 \<le> m" "m < 12"
  shows "0 \<le> month_start m \<and> month_start m \<le> 334"
proof -
  have "list_all (\<lambda>k. 0 \<le> month_start (int k) \<and> month_start (int k) \<le> 334)
          [0, 1, 2, 3, 4, 5, 6, 7, 8, 9, 10, 11]"
    by (simp add: month_start_def)
  moreover have "nat m \<in> set [0..<12]"
    using assms by simp
  ultimately have "0 \<le> month_start (int (nat m)) \<and> month_start (int (nat m)) \<le> 334"
    unfolding list_all_iff months_upt by blast
  then show ?thesis using assms by simp
qed

lemma DayFromYear_bounds:
  assumes "0 \<le> y" "y \<le> 10100"
  shows "- 800000 \<le> DayFromYear y \<and> DayFromYear y \<le> 3000000"
proof -
  have "(0 - 1969) div 4 \<le> (y - 1969) div 4" "(y - 1969) div 4 \<le> (10100 - 1969) div 4"
    "(0 - 1901) div 100 \<le> (y - 1901) div 100" "(y - 1901) div 100 \<le> (10100 - 1901) div 100"
    "(0 - 1601) div 400 \<le> (y - 1601) div 400" "(y - 1601) div 400 \<le> (10100 - 1601) div 400"
    using assms by (auto intro!: zdiv_mono1)
  then show ?thesis using assms by (simp add: DayFromYear_def)
qed

lemma MakeDay_bounds:
  assumes "100 \<le> yr" "yr < 10000" "- 1 \<le> m" "m < 100" "0 \<le> d" "d < 100"
  shows "- 900000 \<le> MakeDay yr m d \<and> MakeDay yr m d \<le> 3100000"
proof -
  have "(- 1) div 12 \<le> m div 12" "m div 12 \<le> 100 div 12"
    using assms by (auto intro!: zdiv_mono1)
  then have ym: "0 \<le> yr + m div 12" "yr + m div 12 \<le> 10100"
    using assms by simp_all
  have mn: "0 \<le> m mod 12" "m mod 12 < 12" by simp_all
  show ?thesis
    using DayFromYear_bounds [OF ym] month_start_bounds [OF mn] assms
    by (simp add: MakeDay_def Let_def)
qed

text \<open>In a time zone whose offset from UTC is at most a day, the five fields of a match
  always make a valid Date.\<close>

lemma matched_date_is_instant:
  assumes tz: "\<forall>t. \<bar>localTZA h t\<bar> \<le> 86400000"
    and m: "date_match s = Some (day, month, year, hour, minute)"
  shows "\<exists>t. new_Date h (int year) (int month - 1) (int day) (int hour) (int minute) = Fin (of_int t)"
proof -
  have b: "day < 100 \<and> month < 100 \<and> year < 10000 \<and> hour < 100 \<and> minute < 100"
    using date_match_bounds [OF m] .
  define yr where "yr = (if 0 \<le> int year \<and> int year \<le> 99 then 1900 + int year else int year)"
  have yr: "100 \<le> yr" "yr < 10000" using b by (auto simp: yr_def)
  have d: "- 900000 \<le> MakeDay yr (int month - 1) (int day) \<and> MakeDay yr (int month - 1) (int day) \<le> 3100000"
    using b by (intro MakeDay_bounds yr) auto
  define t where "t = MakeDate (MakeDay yr (int month - 1) (int day)) (MakeTime (int hour) (int minute))"
  have "\<bar>t\<bar> \<le> 3100000 * 86400000 + 400000000"
    using d b by (simp add: t_def MakeDate_def MakeTime_def abs_le_iff)
  moreover have "\<bar>localTZA h t\<bar> \<le> 86400000" using tz by blast
  ultimately have c: "\<not> 8640000000000000 < \<bar>t - localTZA h t\<bar>" by simp
  have "new_Date h (int year) (int month - 1) (int day) (int hour) (int minute)
          = TimeClip (t - localTZA h t)"
    by (simp add: new_Date_def Let_def yr_def t_def)
  then have "new_Date h (int year) (int month - 1) (int day) (int hour) (int minute)
          = Fin (of_int (t - localTZA h t))"
    using c by (simp add: TimeClip_def)
  then show ?thesis by blast
qed

section \<open>Freshness\<close>

text \<open>The age in days is compared with 7 and 30 after two roundings, of the difference
  and of the quotient; the outcome is that of the comparison of the difference in
  milliseconds, since neither rounding crosses a double.\<close>

lemma days_le:
  fixes k n :: int
  assumes n: "0 < n" "n \<le> 100"
  shows "js_le (js_div (round_double (of_int k)) (Fin (1000 * 60 * 60 * 24))) (Fin (of_int n))
           \<longleftrightarrow> js_le (round_double (of_int k)) (Fin (of_int n * 86400000))"
proof -
  have dn: "is_double (of_int n)"
    using n by (intro is_double_of_int) simp
  have dC: "is_double (of_int (n * 86400000))"
    using n by (intro is_double_of_int) simp
  have dC1: "is_double (of_int (n * 86400000 + 1))"
    using n by (intro is_double_of_int) simp
  have "is_double (of_int (n * 2 ^ 30 + 1) / 2 ^ 30)"
    using n by (intro is_double_dyadic) simp_all
  then have dn': "is_double (of_int n + 1 / 2 ^ 30)"
    by (simp add: field_simps)
  consider "k \<le> 0" | "0 < k" "k \<le> n * 86400000" | "n * 86400000 + 1 \<le> k" by linarith
  then show ?thesis
  proof cases
    case 1
    then have "(of_int k :: rat) \<le> 0" by simp
    then consider "round_double (of_int k) = NInf"
      | v where "round_double (of_int k) = Fin v" "v \<le> 0"
      using round_double_nonpos by blast
    then show ?thesis
    proof cases
      case 1
      then show ?thesis by simp
    next
      case 2
      have "v / 86400000 \<le> 0" using 2(2) by simp
      then have "round_double (v / 86400000) = NInf
                 \<or> (\<exists>w. round_double (v / 86400000) = Fin w \<and> w \<le> 0)"
        by (rule round_double_nonpos)
      then show ?thesis using 2 n by auto
    qed
  next
    case 2
    have "(0::rat) < of_int k" "(of_int k :: rat) \<le> of_int (n * 86400000)"
      using 2 by (simp_all only: of_int_0_less_iff of_int_le_iff)
    then obtain v where v: "round_double (of_int k) = Fin v" "0 \<le> v" "v \<le> of_int (n * 86400000)"
      using round_double_upper [OF _ _ dC] by blast
    have "js_le (round_double (v / 86400000)) (Fin (of_int n))"
    proof (cases "v = 0")
      case True
      then show ?thesis using n by (simp add: round_double_def)
    next
      case False
      then have "0 < v / 86400000" "v / 86400000 \<le> of_int n"
        using v by (simp_all add: field_simps)
      then obtain w where "round_double (v / 86400000) = Fin w" "w \<le> of_int n"
        using round_double_upper [OF _ _ dn] by blast
      then show ?thesis by simp
    qed
    then show ?thesis using v by simp
  next
    case 3
    have p: "(0::rat) < of_int (n * 86400000 + 1)" using n by simp
    have "(of_int (n * 86400000 + 1) :: rat) \<le> of_int k"
      using 3 by (simp only: of_int_le_iff)
    then consider "round_double (of_int k) = PInf"
      | v where "round_double (of_int k) = Fin v" "of_int (n * 86400000 + 1) \<le> v"
      using round_double_lower [OF p _ dC1] by blast
    then show ?thesis
    proof cases
      case 1
      then show ?thesis by simp
    next
      case 2
      have "of_int n + 1 / 2 ^ 30 \<le> (of_int (n * 86400000 + 1) :: rat) / 86400000"
        by (simp add: field_simps)
      also have "\<dots> \<le> v / 86400000" using 2(2) by (simp add: divide_right_mono)
      finally have "of_int n + 1 / 2 ^ 30 \<le> v / 86400000" .
      moreover have "(0::rat) < of_int n + 1 / 2 ^ 30" using n by simp
      ultimately have "round_double (v / 86400000) = PInf
                 \<or> (\<exists>w. round_double (v / 86400000) = Fin w \<and> of_int n + 1 / 2 ^ 30 \<le> w)"
        using round_double_lower [OF _ _ dn'] by blast
      moreover have "\<not> v \<le> of_int n * 86400000" using 2(2) by simp
      ultimately show ?thesis using 2(1) by auto
    qed
  qed
qed

lemma js_le_days:
  "js_le (js_div (js_sub (Fin (of_int now)) (new_Date h y m d hh mi)) (Fin (1000 * 60 * 60 * 24))) (Fin 7)
     \<longleftrightarrow> js_le (js_sub (Fin (of_int now)) (new_Date h y m d hh mi)) (Fin (7 * 86400000))"
  "js_le (js_div (js_sub (Fin (of_int now)) (new_Date h y m d hh mi)) (Fin (1000 * 60 * 60 * 24))) (Fin 30)
     \<longleftrightarrow> js_le (js_sub (Fin (of_int now)) (new_Date h y m d hh mi)) (Fin (30 * 86400000))"
proof -
  have c: "TimeClip u = NaN \<or> TimeClip u = Fin (of_int u)" for u
    by (auto simp: TimeClip_def)
  obtain u where "new_Date h y m d hh mi = TimeClip u"
    by (simp add: new_Date_def Let_def)
  then consider "new_Date h y m d hh mi = NaN" | "new_Date h y m d hh mi = Fin (of_int u)"
    using c [of u] by auto
  then have "js_sub (Fin (of_int now)) (new_Date h y m d hh mi) = NaN
             \<or> js_sub (Fin (of_int now)) (new_Date h y m d hh mi) = round_double (of_int (now - u))"
    by cases (simp_all add: js_sub_def)
  then show
    "js_le (js_div (js_sub (Fin (of_int now)) (new_Date h y m d hh mi)) (Fin (1000 * 60 * 60 * 24))) (Fin 7)
       \<longleftrightarrow> js_le (js_sub (Fin (of_int now)) (new_Date h y m d hh mi)) (Fin (7 * 86400000))"
    "js_le (js_div (js_sub (Fin (of_int now)) (new_Date h y m d hh mi)) (Fin (1000 * 60 * 60 * 24))) (Fin 30)
       \<longleftrightarrow> js_le (js_sub (Fin (of_int now)) (new_Date h y m d hh mi)) (Fin (30 * 86400000))"
    using days_le [of 7 "now - u"] days_le [of 30 "now - u"] by auto
qed

lemma date_match_non_renseigne: "date_match non_renseigne = None"
  by (simp add: non_renseigne_def js_def date_match_here_def take_digits_def is_digit_def)

lemma getDataAge_non_string:
  "getDataAge h now JNull = Stale" "getDataAge h now JUndefined = Stale"
  "getDataAge h now (JBool b) = Stale" "getDataAge h now (JNum x) = Stale"
  by (simp_all add: getDataAge_def String_match_def)

text \<open>
  Claim C8. On a string, \<open>getDataAge\<close> is \<open>stale\<close> when the string is the sentinel, is
  empty, or has no occurrence of the pattern; otherwise, with the age the difference of
  \<open>now\<close> and the instant of the first occurrence, it is \<open>fresh\<close> when the age is at most 7
  days, \<open>old\<close> when it is at most 30 days, and \<open>stale\<close> otherwise. On a value that is not a
  string the TypeError of \<open>match\<close> is caught and the result is \<open>stale\<close>: no input makes the
  function raise.
\<close>

theorem C8_getDataAge:
  "getDataAge h now (JStr s) =
     (if s = non_renseigne \<or> s = [] then Stale
      else
        (case date_match s of
           None \<Rightarrow> Stale
         | Some (day, month, year, hour, minute) \<Rightarrow>
             (let age = js_sub (Fin (of_int now))
                          (new_Date h (int year) (int month - 1) (int day) (int hour) (int minute))
              in if js_le age (Fin (7 * 86400000)) then Fresh
                 else if js_le age (Fin (30 * 86400000)) then Old
                 else Stale))) \<and>
   getDataAge h now JNull = Stale \<and> getDataAge h now JUndefined = Stale \<and>
   getDataAge h now (JBool b) = Stale \<and> getDataAge h now (JNum x) = Stale"
  using js_le_days
  by (auto simp: getDataAge_def String_match_def Let_def getDataAge_non_string split: option.splits)

text \<open>The theorem at the timestamp of 15 January 2025, seen eight days later: \<open>old\<close>.\<close>

theorem C8_getDataAge_witness:
  "getDataAge host_utc 1737619200000 maj_2025 = Old"
proof -
  have ne: "js ''15/01/2025 '' @ [0xE0] @ js '' 08:00'' \<noteq> non_renseigne"
    "js ''15/01/2025 '' @ [0xE0] @ js '' 08:00'' \<noteq> []"
    by (simp_all add: js_def non_renseigne_def)
  have r: "round_double 691200000 = Fin 691200000"
    using round_double_of_int [of 691200000] by simp
  show ?thesis
    using C8_getDataAge [of host_utc 1737619200000 "js ''15/01/2025 '' @ [0xE0] @ js '' 08:00''"]
      ne date_match_2025 new_Date_2025
    by (simp add: maj_2025_def js_sub_def r)
qed

text \<open>
  Claim C10. A string in which the pattern occurs, and whose instant is strictly later
  than \<open>now\<close>, is \<open>fresh\<close>: the age is negative.
\<close>

theorem C10_futur_frais:
  assumes "date_match s = Some (day, month, year, hour, minute)"
    and "js_less (Fin (of_int now))
           (new_Date h (int year) (int month - 1) (int day) (int hour) (int minute))"
  shows "getDataAge h now (JStr s) = Fresh"
proof -
  have "s \<noteq> []" using assms(1) by auto
  moreover have "s \<noteq> non_renseigne" using assms(1) date_match_non_renseigne by auto
  moreover have "js_le (js_div (js_sub (Fin (of_int now)) x) (Fin (1000 * 60 * 60 * 24))) (Fin 7)"
    if "js_less (Fin (of_int now)) x" for x
  proof (cases x)
    case (Fin t)
    then have "of_int now - t < 0" using that by simp
    then consider "round_double (of_int now - t) = NInf"
      | v where "round_double (of_int now - t) = Fin v" "v \<le> 0"
      using round_double_neg by blast
    then show ?thesis
    proof cases
      case 1
      then show ?thesis using Fin by (simp add: js_sub_def)
    next
      case 2
      have "v / 86400000 \<le> 0" using 2(2) by simp
      then have "round_double (v / 86400000) = NInf
                 \<or> (\<exists>w. round_double (v / 86400000) = Fin w \<and> w \<le> 0)"
        by (rule round_double_nonpos)
      then show ?thesis using 2 Fin by (auto simp: js_sub_def)
    qed
  qed (use that in \<open>simp_all add: js_sub_def\<close>)
  ultimately show ?thesis using assms
    by (simp add: getDataAge_def String_match_def)
qed

text \<open>The theorem at the timestamp of 15 January 2025, seen on 14 November 2023.\<close>

theorem C10_futur_frais_witness:
  "getDataAge host_utc 1700000000000 maj_2025 = Fresh"
proof -
  have nd: "js_less (Fin (of_int 1700000000000))
              (new_Date host_utc (int 2025) (int 1 - 1) (int 15) (int 8) (int 0))"
    using new_Date_2025 by simp
  show ?thesis
    using C10_futur_frais [OF date_match_2025 nd] by (simp add: maj_2025_def)
qed

section \<open>The map link\<close>

lemma js_div_NaN_iff: "b \<noteq> 0 \<Longrightarrow> js_div x (Fin b) = NaN \<longleftrightarrow> x = NaN"
  by (cases x) auto

lemma coords_usable_iff:
  "(truthy (latitude st) \<and> truthy (longitude st) \<and>
    \<not> isNaN (js_div (parseFloat (latitude st)) (Fin 100000)) \<and>
    \<not> isNaN (js_div (parseFloat (longitude st)) (Fin 100000)) \<and>
    js_div (parseFloat (latitude st)) (Fin 100000) \<noteq> Fin 0 \<and>
    js_div (parseFloat (longitude st)) (Fin 100000) \<noteq> Fin 0) \<longleftrightarrow> coordinates_usable st"
  by (auto simp: coordinates_usable_def isNaN_def js_div_NaN_iff)

lemma trim_placeholder: "trim (js ''Station-service'') \<noteq> []"
  by (simp add: trim_def js_def is_space_def)

lemma trim_Nil: "trim [] = []"
  by (simp add: trim_def)

lemma js_append: "js (a @ b) = js a @ js b"
  by (simp add: js_def)

lemma placeholder_space: "js ''Station-service '' = js ''Station-service'' @ js '' ''"
  by (simp add: js_def)

lemma search_query_eq:
  "(let m = str_or (marque st) (js ''Station-service'') in
    if m \<noteq> [] \<and> m \<noteq> js ''Station-service'' \<and> trim m \<noteq> []
    then m @ js '' '' @ full_address st
    else js ''Station-service '' @ full_address st) = text_query st"
proof (cases "marque st")
  case None
  then show ?thesis by (simp add: text_query_def str_or_def placeholder_space)
next
  case (Some m)
  then show ?thesis
    using trim_placeholder
    by (auto simp: text_query_def str_or_def placeholder_space trim_Nil Let_def)
qed

lemma generateGoogleMapsUrl_eq:
  "generateGoogleMapsUrl h st =
     (if coordinates_usable st then Inr (coordinate_url h st)
      else (case encodeURIComponent (text_query st) of
              Inl e \<Rightarrow> Inl e
            | Inr q \<Rightarrow> Inr (js ''https://www.google.com/maps/search/'' @ q)))"
proof (cases "coordinates_usable st")
  case True
  then show ?thesis
    using coords_usable_iff [of st]
    by (simp add: generateGoogleMapsUrl_def coordinate_url_def Let_def)
next
  case False
  then have "\<not> (truthy (latitude st) \<and> truthy (longitude st) \<and>
    \<not> isNaN (js_div (parseFloat (latitude st)) (Fin 100000)) \<and>
    \<not> isNaN (js_div (parseFloat (longitude st)) (Fin 100000)) \<and>
    js_div (parseFloat (latitude st)) (Fin 100000) \<noteq> Fin 0 \<and>
    js_div (parseFloat (longitude st)) (Fin 100000) \<noteq> Fin 0)"
    using coords_usable_iff [of st] by simp
  then show ?thesis
    using False
    by (auto simp: generateGoogleMapsUrl_def Let_def search_query_eq [symmetric, unfolded Let_def]
        full_address_def)
qed

lemma unreserved_not_surrogate: "is_unreserved c \<Longrightarrow> \<not> is_lead c \<and> \<not> is_trail c"
  by (auto simp: is_unreserved_def is_lead_def is_trail_def word_le_nat_alt)

lemma lead_not_trail: "is_lead c \<Longrightarrow> \<not> is_trail c"
  by (auto simp: is_lead_def is_trail_def word_le_nat_alt)

lemma encodeURIComponent_total_iff:
  "(\<exists>q. encodeURIComponent s = Inr q) \<longleftrightarrow> well_formed_utf16 s"
proof (induction s rule: encodeURIComponent.induct)
  case 1
  then show ?case by simp
next
  case (2 c cs)
  consider (unres) "is_unreserved c" | (trail) "\<not> is_unreserved c" "is_trail c"
    | (lead) "\<not> is_unreserved c" "\<not> is_trail c" "is_lead c"
    | (plain) "\<not> is_unreserved c" "\<not> is_trail c" "\<not> is_lead c"
    by blast
  then show ?case
  proof cases
    case unres
    then have "\<not> is_lead c" "\<not> is_trail c"
      using unreserved_not_surrogate by auto
    then show ?thesis using unres 2(1) by (auto split: sum.splits)
  next
    case trail
    then have "\<not> is_lead c" using lead_not_trail by auto
    then show ?thesis using trail by simp
  next
    case lead
    show ?thesis
    proof (cases cs)
      case Nil
      then show ?thesis using lead by simp
    next
      case (Cons d ds)
      then show ?thesis using lead 2(2) by (auto split: sum.splits)
    qed
  next
    case plain
    then show ?thesis using 2(3) by (auto split: sum.splits)
  qed
qed


lemma hex_digits_upt: "[0..<16] = [0, 1, 2, 3, 4, 5, 6, 7, 8, 9, 10, 11, 12, 13, 14, 15 :: nat]"
  by code_simp

lemma hex_digit_unreserved:
  assumes "n < 16"
  shows "is_unreserved (hex_digit n)"
proof -
  have "list_all (\<lambda>k. is_unreserved (hex_digit k)) [0, 1, 2, 3, 4, 5, 6, 7, 8, 9, 10, 11, 12, 13, 14, 15]"
    by (simp add: hex_digit_def is_unreserved_def)
  then have "list_all (\<lambda>k. is_unreserved (hex_digit k)) [0..<16]"
    by (simp only: hex_digits_upt)
  then show ?thesis using assms by (simp add: list_all_iff)
qed

lemma percent_chars: "b < 256 \<Longrightarrow> c \<in> set (percent b) \<Longrightarrow> is_unreserved c \<or> c = 0x25"
  by (auto simp: percent_def intro!: hex_digit_unreserved)

lemma utf8_bytes: "n < 0x110000 \<Longrightarrow> b \<in> set (utf8 n) \<Longrightarrow> b < 256"
  by (auto simp: utf8_def split: if_splits)

lemma percent_encode_chars:
  "n < 0x110000 \<Longrightarrow> c \<in> set (percent_encode n) \<Longrightarrow> is_unreserved c \<or> c = 0x25"
  by (auto simp: percent_encode_def dest: utf8_bytes percent_chars)

lemma pair_code_point_bound: "is_lead c \<Longrightarrow> is_trail d \<Longrightarrow> pair_code_point c d < 0x110000"
  by (auto simp: pair_code_point_def is_lead_def is_trail_def word_le_nat_alt)

lemma code_unit_bound: "unat (c :: code_unit) < 0x110000"
  using unsigned_less [of c, where ?'a = nat] by simp

lemma encodeURIComponent_chars:
  "encodeURIComponent s = Inr q \<Longrightarrow> c \<in> set q \<Longrightarrow> is_unreserved c \<or> c = 0x25"
proof (induction s arbitrary: q rule: encodeURIComponent.induct)
  case 1
  then show ?case by simp
next
  case (2 a as)
  show ?case
  proof (cases "is_unreserved a")
    case True
    then show ?thesis using 2(1) 2(4,5) by (auto split: sum.splits)
  next
    case unres: False
    show ?thesis
    proof (cases "is_lead a")
      case True
      then obtain d ds r where as: "as = d # ds" and d: "is_trail d"
        and r: "encodeURIComponent ds = Inr r" and q: "q = percent_encode (pair_code_point a d) @ r"
        using unres 2(4) by (auto split: if_splits list.splits sum.splits)
      have "\<not> is_trail a" using True lead_not_trail by simp
      then show ?thesis
        using 2(2) [OF unres _ True as d r] 2(5) q percent_encode_chars pair_code_point_bound [OF True d]
        by auto
    next
      case False
      then obtain r where nt: "\<not> is_trail a" and r: "encodeURIComponent as = Inr r"
        and q: "q = percent_encode (unat a) @ r"
        using unres 2(4) by (auto split: if_splits sum.splits)
      show ?thesis
        using 2(3) [OF unres nt False r] 2(5) q percent_encode_chars code_unit_bound
        by auto
    qed
  qed
qed


text \<open>
  Claim C7, as the code has it. The resolver returns the coordinate URL exactly when the
  coordinates are usable (both present, both parsed to a number, neither zero once divided
  by \<open>10^5\<close>); otherwise it percent-encodes the text query made of the brand and the full
  address, whose result holds only unreserved characters and \<open>%\<close>. It returns a URL
  exactly when the coordinates are usable or the text query has no lone surrogate, and
  raises the URIError of \<open>encodeURIComponent\<close> otherwise.
\<close>

theorem C7_generateGoogleMapsUrl:
  "generateGoogleMapsUrl h st =
     (if coordinates_usable st then Inr (coordinate_url h st)
      else (case encodeURIComponent (text_query st) of
              Inl e \<Rightarrow> Inl e
            | Inr q \<Rightarrow> Inr (js ''https://www.google.com/maps/search/'' @ q))) \<and>
   ((\<exists>u. generateGoogleMapsUrl h st = Inr u)
      \<longleftrightarrow> coordinates_usable st \<or> well_formed_utf16 (text_query st)) \<and>
   (\<not> coordinates_usable st \<and> \<not> well_formed_utf16 (text_query st)
      \<longrightarrow> generateGoogleMapsUrl h st = Inl URIError) \<and>
   (encodeURIComponent (text_query st) = Inr q \<longrightarrow> (\<forall>c \<in> set q. is_unreserved c \<or> c = 0x25))"
proof -
  have uri: "encodeURIComponent s = Inl e \<Longrightarrow> e = URIError" for s e
    by (induction s rule: encodeURIComponent.induct) (auto split: if_splits sum.splits list.splits)
  have 2: "(\<exists>u. generateGoogleMapsUrl h st = Inr u)
      \<longleftrightarrow> coordinates_usable st \<or> well_formed_utf16 (text_query st)"
    using encodeURIComponent_total_iff [of "text_query st"]
    by (auto simp: generateGoogleMapsUrl_eq split: sum.splits)
  have 3: "generateGoogleMapsUrl h st = Inl URIError"
    if "\<not> coordinates_usable st" "\<not> well_formed_utf16 (text_query st)"
    using that encodeURIComponent_total_iff [of "text_query st"] uri [of "text_query st"]
    by (auto simp: generateGoogleMapsUrl_eq split: sum.splits)
  show ?thesis
    using 2 3 encodeURIComponent_chars [of "text_query st" q] generateGoogleMapsUrl_eq [of h st]
    by blast
qed

text \<open>The coordinates 4885000 and 235000 divided by \<open>10^5\<close> are the doubles 48.85 and
  2.35.\<close>

lemma round_latitude_A: "round_double (977 / 20) = Fin (6875026306157773 / 140737488355328)"
proof -
  have rh: "round_half_even ((977 / 20) / 2 powi (5 - 52)) = 6875026306157773"
    by (rule round_half_even_eqI) simp
  show ?thesis
    using round_double_eval [of "977 / 20" "5" 6875026306157773, OF _ _ _ _ rh] by simp
qed

lemma round_longitude_A: "round_double (47 / 20) = Fin (5291729562160333 / 2251799813685248)"
proof -
  have rh: "round_half_even ((47 / 20) / 2 powi (1 - 52)) = 5291729562160333"
    by (rule round_half_even_eqI) simp
  show ?thesis
    using round_double_eval [of "47 / 20" "1" 5291729562160333, OF _ _ _ _ rh] by simp
qed

lemma parseFloat_coordinates_A:
  "parseFloat (latitude station_A) = Fin 4885000" "parseFloat (longitude station_A) = Fin 235000"
  using round_double_of_int [of 4885000] round_double_of_int [of 235000]
  by (simp_all add: station_A_def js_def parseFloat_str_def parse_unsigned_def
      is_space_def is_digit_def digits_val_def digit_val_def pow10_def parse_exponent_def)

lemma coordinates_A: "coordinates_usable station_A"
  by (simp add: coordinates_usable_def parseFloat_coordinates_A round_latitude_A round_longitude_A)
    (simp add: station_A_def js_def)

lemma coordinate_url_A:
  "coordinate_url host_utc station_A = js ''https://www.google.com/maps/search/?api=1&query=48.85,2.35''"
  by (simp add: coordinate_url_def parseFloat_coordinates_A round_latitude_A round_longitude_A
      host_utc_def js_def)

lemma coordinates_B: "\<not> coordinates_usable station_B"
  by (simp add: coordinates_usable_def station_B_def)

lemma text_query_B: "text_query station_B = js ''Station-service 2 avenue Foch, France''"
  by (simp add: text_query_def full_address_def station_B_def str_or_def js_def trim_def is_space_def)

lemma encode_B:
  "encodeURIComponent (js ''Station-service 2 avenue Foch, France'')
     = Inr (js ''Station-service%202%20avenue%20Foch%2C%20France'')"
  by (simp add: js_def is_unreserved_def is_lead_def is_trail_def percent_encode_def percent_def
      utf8_def hex_digit_def)

text \<open>The theorem at the station with the coordinates 4885000 and 235000, and at the
  station whose coordinates are 0.\<close>

theorem C7_generateGoogleMapsUrl_witness:
  "coordinates_usable station_A \<and>
   generateGoogleMapsUrl host_utc station_A
     = Inr (js ''https://www.google.com/maps/search/?api=1&query=48.85,2.35'') \<and>
   \<not> coordinates_usable station_B \<and>
   generateGoogleMapsUrl host_utc station_B
     = Inr (js ''https://www.google.com/maps/search/Station-service%202%20avenue%20Foch%2C%20France'')"
  using C7_generateGoogleMapsUrl [of host_utc station_A] C7_generateGoogleMapsUrl [of host_utc station_B]
    coordinates_A coordinates_B
  by (simp add: coordinate_url_A text_query_B encode_B js_append [symmetric])

text \<open>Claim C7 as stated fails at a station without coordinates whose brand is a lone
  high surrogate: \<open>encodeURIComponent\<close> raises a URIError, outside the \<open>try\<close>.\<close>

theorem C7_URIError_counterexample:
  "generateGoogleMapsUrl host_utc station_marque_invalide = Inl URIError"
  by (simp add: generateGoogleMapsUrl_def station_marque_invalide_def station_C_def str_or_def
      js_def trim_def is_space_def is_unreserved_def is_lead_def is_trail_def)

section \<open>The search controller\<close>

lemma appliquerFiltres_isLoading: "isLoading (fst (appliquerFiltres h now ctl a)) = isLoading a"
  by (simp add: appliquerFiltres_def Let_def split: sum.splits)

lemma appliquerFiltres_stationsData: "stationsData (fst (appliquerFiltres h now ctl a)) = stationsData a"
  by (simp add: appliquerFiltres_def Let_def split: sum.splits)

lemma settle_isLoading: "isLoading (rechercherStations_settle h now ctl resp a) = False"
  by (simp add: rechercherStations_settle_def split: prod.splits option.splits)

lemma rechercherStations_loading:
  "isLoading a \<Longrightarrow> fst (rechercherStations ctl a) = a \<and> filter is_fetch (snd (rechercherStations ctl a)) = []"
  by (simp add: rechercherStations_def Let_def is_fetch_def)

text \<open>The invariant of the page: at most one request is in flight, and one is in flight
  exactly while \<open>isLoading\<close> is set.\<close>

lemma step_invariant:
  assumes "step h w e = Some w'"
    and "inflight w \<le> 1 \<and> (isLoading (ctrl w) \<longleftrightarrow> inflight w = 1)"
  shows "inflight w' \<le> 1 \<and> (isLoading (ctrl w') \<longleftrightarrow> inflight w' = 1)"
proof (cases e)
  case (Search ctl)
  then show ?thesis using assms
    by (auto simp: rechercherStations_def Let_def is_fetch_def split: if_splits sum.splits)
next
  case (Settle now ctl resp)
  then show ?thesis using assms
    by (auto simp: settle_isLoading split: if_splits)
next
  case (FilterChange now ctl)
  then show ?thesis using assms
    by (auto simp: appliquerFiltres_isLoading)
qed

lemma run_invariant:
  "run h w es = Some w' \<Longrightarrow> inflight w \<le> 1 \<and> (isLoading (ctrl w) \<longleftrightarrow> inflight w = 1) \<Longrightarrow>
   inflight w' \<le> 1 \<and> (isLoading (ctrl w') \<longleftrightarrow> inflight w' = 1)"
proof (induction es arbitrary: w)
  case Nil
  then show ?case by simp
next
  case (Cons e es)
  then obtain w1 where 1: "step h w e = Some w1" and 2: "run h w1 es = Some w'"
    by (auto split: option.splits)
  show ?case
    using Cons.IH [OF 2 step_invariant [OF 1 Cons.prems(2)]] .
qed

text \<open>
  Claim C6. While \<open>isLoading\<close> is set, a search trigger returns the state it was given and
  asks for no request. In every state the page reaches from its construction, through
  search triggers, settlements of the request in flight and changes of the filters, at
  most one request is in flight, and one is in flight exactly when \<open>isLoading\<close> is set.
  Settling a request, with a success or a failure, clears \<open>isLoading\<close>.
\<close>

theorem C6_une_recherche_a_la_fois:
  "(isLoading a \<longrightarrow>
      fst (rechercherStations ctl a) = a \<and> filter is_fetch (snd (rechercherStations ctl a)) = []) \<and>
   (run h constructor es = Some w \<longrightarrow>
      inflight w \<le> 1 \<and> (isLoading (ctrl w) \<longleftrightarrow> inflight w = 1)) \<and>
   isLoading (rechercherStations_settle h now ctl' resp a) = False"
proof -
  have "inflight constructor \<le> 1 \<and> (isLoading (ctrl constructor) \<longleftrightarrow> inflight constructor = 1)"
    by (simp add: constructor_def)
  then show ?thesis
    using run_invariant [of h constructor es w] rechercherStations_loading [of a ctl]
    by (simp add: settle_isLoading)
qed

text \<open>The theorem at a page that is loading, and at two search triggers in a row after
  the construction: the second one changes nothing and one request is in flight.\<close>

theorem C6_une_recherche_a_la_fois_witness:
  "isLoading app_charge \<and>
   fst (rechercherStations ctl_defaut app_charge) = app_charge \<and>
   run host_utc constructor [Search ctl_defaut, Search ctl_defaut]
     = Some \<lparr>ctrl = \<lparr>stationsData = [], filteredStations = [], isLoading = True, resultats = Loading\<rparr>,
             inflight = 1\<rparr> \<and>
   run host_utc constructor [Search ctl_defaut]
     = Some \<lparr>ctrl = \<lparr>stationsData = [], filteredStations = [], isLoading = True, resultats = Loading\<rparr>,
             inflight = 1\<rparr>"
proof -
  have l: "isLoading app_charge" by (simp add: app_charge_def)
  have v: "trim (villeInput ctl_defaut) = js ''Paris''"
    by (simp add: ctl_defaut_def trim_def js_def is_space_def)
  have e: "encodeURIComponent (js ''Paris'') = Inr (js ''Paris'')"
    by (simp add: js_def is_unreserved_def)
  have s1: "rechercherStations ctl_defaut (ctrl constructor)
              = (\<lparr>stationsData = [], filteredStations = [], isLoading = True, resultats = Loading\<rparr>,
                 [Fetch (js ''/api/search?ville='' @ js ''Paris'')])"
    using v e by (simp add: rechercherStations_def constructor_def) (simp add: js_def)
  have s2: "rechercherStations ctl_defaut
              \<lparr>stationsData = [], filteredStations = [], isLoading = True, resultats = Loading\<rparr>
              = (\<lparr>stationsData = [], filteredStations = [], isLoading = True, resultats = Loading\<rparr>, [])"
    using v by (simp add: rechercherStations_def) (simp add: js_def)
  have r: "run host_utc constructor [Search ctl_defaut, Search ctl_defaut]
     = Some \<lparr>ctrl = \<lparr>stationsData = [], filteredStations = [], isLoading = True, resultats = Loading\<rparr>,
             inflight = 1\<rparr>"
    using s1 s2 by (simp add: is_fetch_def constructor_def)
  have r1: "run host_utc constructor [Search ctl_defaut]
     = Some \<lparr>ctrl = \<lparr>stationsData = [], filteredStations = [], isLoading = True, resultats = Loading\<rparr>,
             inflight = 1\<rparr>"
    using s1 by (simp add: is_fetch_def constructor_def)
  show ?thesis
    using C6_une_recherche_a_la_fois [of app_charge ctl_defaut host_utc
        "[Search ctl_defaut, Search ctl_defaut]"] l r r1
    by simp
qed

lemma settle_failed:
  "failed resp \<Longrightarrow>
   \<exists>e. rechercherStations_settle h now ctl resp a = a\<lparr>resultats := ErrorMessage e, isLoading := False\<rparr>"
  by (cases resp) (auto simp: rechercherStations_settle_def rechercherStations_try_def)

lemma rechercherStations_collections:
  "stationsData (fst (rechercherStations ctl a)) = stationsData a \<and>
   filteredStations (fst (rechercherStations ctl a)) = filteredStations a"
  by (simp add: rechercherStations_def Let_def split: sum.splits)

text \<open>
  Claim C9. Starting a search changes neither collection, and so does settling it with a
  failure (a network error, a body that is not JSON, a response that is not a success):
  after both, \<open>stationsData\<close> and \<open>filteredStations\<close> are what they were before the search
  began, the page shows the error, and \<open>isLoading\<close> is clear. A change of the filters
  leaves \<open>stationsData\<close> as it is.
\<close>

theorem C9_echec_conserve_les_collections:
  "(failed resp \<longrightarrow>
      stationsData (rechercherStations_settle h now ctl' resp (fst (rechercherStations ctl a))) = stationsData a \<and>
      filteredStations (rechercherStations_settle h now ctl' resp (fst (rechercherStations ctl a)))
        = filteredStations a \<and>
      (\<exists>e. resultats (rechercherStations_settle h now ctl' resp (fst (rechercherStations ctl a)))
             = ErrorMessage e)) \<and>
   stationsData (fst (appliquerFiltres h now ctl' a)) = stationsData a"
proof -
  have "stationsData (rechercherStations_settle h now ctl' resp b) = stationsData b \<and>
        filteredStations (rechercherStations_settle h now ctl' resp b) = filteredStations b \<and>
        (\<exists>e. resultats (rechercherStations_settle h now ctl' resp b) = ErrorMessage e)"
    if "failed resp" for b
    using settle_failed [OF that, of h now ctl' b] by auto
  then show ?thesis
    using rechercherStations_collections [of ctl a]
    by (simp add: appliquerFiltres_stationsData)
qed

text \<open>The theorem at a page that shows one of two stations, for a search that the server
  answers with an error.\<close>

theorem C9_echec_conserve_les_collections_witness:
  "failed (Response False \<lparr>data_stations = None, data_error = Some (js ''Ville inconnue'')\<rparr>) \<and>
   stationsData (rechercherStations_settle host_utc 1737000000000 ctl_defaut
                   (Response False \<lparr>data_stations = None, data_error = Some (js ''Ville inconnue'')\<rparr>)
                   (fst (rechercherStations ctl_defaut app_pret))) = [station_A, station_B] \<and>
   filteredStations (rechercherStations_settle host_utc 1737000000000 ctl_defaut
                   (Response False \<lparr>data_stations = None, data_error = Some (js ''Ville inconnue'')\<rparr>)
                   (fst (rechercherStations ctl_defaut app_pret))) = [station_A]"
proof -
  have f: "failed (Response False \<lparr>data_stations = None, data_error = Some (js ''Ville inconnue'')\<rparr>)"
    by simp
  show ?thesis
    using C9_echec_conserve_les_collections [of
        "Response False \<lparr>data_stations = None, data_error = Some (js ''Ville inconnue'')\<rparr>"
        host_utc 1737000000000 ctl_defaut ctl_defaut app_pret] f
    by (simp add: app_pret_def)
qed

text \<open>What the same path does for a response with stations whose prices are numbers: the
  collection is stored, filtered and sorted under the controls of the page, and rendered.\<close>

lemma creerCartes_numbers:
  "\<forall>s \<in> set ss. \<forall>p \<in> set (prix s). \<exists>x. valeur p = JNum x \<Longrightarrow> \<exists>cards. creerCartes h now ss = Inr cards"
proof (induction ss)
  case Nil
  then show ?case by simp
next
  case (Cons s ss)
  have "list_all (\<lambda>p. case valeur p of JNum x \<Rightarrow> True | _ \<Rightarrow> False) (prix s)"
    using Cons.prems by (auto simp: list_all_iff)
  then show ?case using Cons by (auto simp: creerCarteStation_def)
qed

lemma set_filtres_subset:
  "set (filtrer_carburants fs (filtrer_horaires hs (filtrer_type t xs))) \<subseteq> set xs"
proof -
  obtain P where P: "\<And>ys. filtrer_type t ys = filter P ys"
    using filtrer_type_filter by blast
  obtain Q where Q: "\<And>ys. filtrer_horaires hs ys = filter Q ys"
    using filtrer_horaires_filter by blast
  obtain R where R: "\<And>ys. filtrer_carburants fs ys = filter R ys"
    using filtrer_carburants_filter by blast
  show ?thesis unfolding P Q R by auto
qed

lemma set_trierStations: "set (trierStations h xs tri) = set xs"
  using mset_trierStations [of h xs tri] by (rule mset_eq_setD)

lemma settle_success_rendered:
  assumes "sd \<noteq> []"
    and "\<forall>s \<in> set sd. \<forall>p \<in> set (prix s). \<exists>x. valeur p = JNum x"
  shows "\<exists>v. afficherResultats h now
               (trierStations h
                  (filtrer_carburants (checkedFuels ctl)
                     (filtrer_horaires (str_or (horairesSelect ctl) [])
                        (filtrer_type (str_or (typeStationSelect ctl) []) sd)))
                  (str_or (triSelect ctl) (js ''date-maj''))) = Inr v \<and>
             rechercherStations_settle h now ctl (Response True \<lparr>data_stations = Some sd, data_error = e\<rparr>) a
               = a\<lparr>stationsData := sd,
                    filteredStations :=
                      trierStations h
                        (filtrer_carburants (checkedFuels ctl)
                           (filtrer_horaires (str_or (horairesSelect ctl) [])
                              (filtrer_type (str_or (typeStationSelect ctl) []) sd)))
                        (str_or (triSelect ctl) (js ''date-maj'')),
                    resultats := v, isLoading := False\<rparr>"
proof -
  let ?F = "trierStations h
              (filtrer_carburants (checkedFuels ctl)
                 (filtrer_horaires (str_or (horairesSelect ctl) [])
                    (filtrer_type (str_or (typeStationSelect ctl) []) sd)))
              (str_or (triSelect ctl) (js ''date-maj''))"
  have "set ?F \<subseteq> set sd"
    using set_filtres_subset by (simp add: set_trierStations)
  then have "\<forall>s \<in> set ?F. \<forall>p \<in> set (prix s). \<exists>x. valeur p = JNum x"
    using assms(2) by blast
  then obtain cards where "creerCartes h now ?F = Inr cards"
    using creerCartes_numbers by blast
  then have "\<exists>v. afficherResultats h now ?F = Inr v"
    by (cases "?F = []") (simp_all add: afficherResultats_def)
  then obtain v where v: "afficherResultats h now ?F = Inr v"
    by blast
  then show ?thesis using assms(1)
    by (simp add: rechercherStations_settle_def rechercherStations_try_def appliquerFiltres_def Let_def)
qed

text \<open>
  Claim C4 at a success response without a station: the two collections become empty and
  \<open>isLoading\<close> is cleared, but \<open>appliquerFiltres\<close> returns at its first line, nothing is
  rendered, and the page keeps what it showed, the loading indicator of the search.
\<close>

theorem C4_reponse_vide_non_affichee:
  "rechercherStations_settle h now ctl (Response True \<lparr>data_stations = Some [], data_error = e\<rparr>) a
     = a\<lparr>stationsData := [], filteredStations := [], isLoading := False\<rparr> \<and>
   rechercherStations_settle h now ctl (Response True \<lparr>data_stations = None, data_error = e\<rparr>) a
     = a\<lparr>stationsData := [], filteredStations := [], isLoading := False\<rparr> \<and>
   resultats (rechercherStations_settle host_utc 1737000000000 ctl_defaut
                (Response True \<lparr>data_stations = Some [], data_error = None\<rparr>) app_charge) = Loading"
  by (simp add: rechercherStations_settle_def rechercherStations_try_def appliquerFiltres_def
      app_charge_def)

end
